theory Spec2Isabelle
  imports Complex_Main "HOL-Library.Word"
begin

section \<open>Python values used by the engine\<close>

text \<open>
  A Python \<open>str\<close> is a sequence of Unicode code points, modelled as a list of natural
  numbers; \<open>ustr\<close> turns an ASCII literal into such a sequence. \<open>bytes\<close> is a list of
  8-bit words. Python floats are modelled as reals: the engine only writes the literal
  \<open>0.0\<close>, subtracts two clock readings and passes the model's probability through.
\<close>

type_synonym pystr = "nat list"
type_synonym bytes = "8 word list"

definition ustr :: "string \<Rightarrow> pystr" where
  "ustr s = map of_char s"

text \<open>
  \<open>str.isspace\<close> for one code point, as CPython defines it: the code points whose
  general category is Zs or whose bidirectional class is WS, B or S.
\<close>

definition isspace :: "nat \<Rightarrow> bool" where
  "isspace c \<longleftrightarrow>
     (9 \<le> c \<and> c \<le> 13) \<or> (28 \<le> c \<and> c \<le> 32) \<or> c = 133 \<or> c = 160 \<or> c = 5760 \<or>
     (8192 \<le> c \<and> c \<le> 8202) \<or> c = 8232 \<or> c = 8233 \<or> c = 8239 \<or> c = 8287 \<or>
     c = 12288"

text \<open>\<open>s.strip()\<close>: drop the whitespace run at the left end, then the one at the right end.\<close>

definition strip :: "pystr \<Rightarrow> pystr" where
  "strip s = rev (dropWhile isspace (rev (dropWhile isspace s)))"

text \<open>\<open>"".join(parts)\<close>: the parts one after the other, nothing between them.\<close>

definition join_empty :: "pystr list \<Rightarrow> pystr" where
  "join_empty parts = concat parts"

datatype error =
    ValueError string
  | LibraryError string
  | OSError
  | KeyError
  | WaveError
  | StructError

section \<open>The \<open>wave\<close> writer\<close>

text \<open>
  The standard library's \<open>wave\<close> writer, as \<open>transcribe_pcm16\<close> drives it on a
  little-endian machine: the setters reject a channel count below 1, a sample width outside
  1..4 and a frame rate that is not positive (\<open>wave.Error\<close>); the header is packed into
  fixed-width little-endian fields, and a value that does not fit its field raises
  \<open>struct.error\<close>; the container is the 44-byte header followed by the frames, the two
  length fields holding the number of bytes written.
\<close>

definition ascii :: "string \<Rightarrow> bytes" where
  "ascii s = map (\<lambda>c. of_nat (of_char c)) s"

definition le16 :: "nat \<Rightarrow> bytes" where
  "le16 n = [of_nat (n mod 256), of_nat (n div 256 mod 256)]"

definition le32 :: "nat \<Rightarrow> bytes" where
  "le32 n = [of_nat (n mod 256), of_nat (n div 256 mod 256), of_nat (n div 65536 mod 256),
             of_nat (n div 16777216 mod 256)]"

definition wave_header :: "nat \<Rightarrow> nat \<Rightarrow> nat \<Rightarrow> nat \<Rightarrow> bytes" where
  "wave_header nchannels sampwidth framerate datalength =
     ascii ''RIFF'' @ le32 (36 + datalength) @ ascii ''WAVE'' @ ascii ''fmt '' @ le32 16 @
     le16 1 @ le16 nchannels @ le32 framerate @ le32 (nchannels * framerate * sampwidth) @
     le16 (nchannels * sampwidth) @ le16 (sampwidth * 8) @ ascii ''data'' @ le32 datalength"

definition wave_write :: "nat \<Rightarrow> nat \<Rightarrow> int \<Rightarrow> bytes \<Rightarrow> error + bytes" where
  "wave_write nchannels sampwidth framerate frames =
     (if nchannels < 1 \<or> sampwidth < 1 \<or> 4 < sampwidth \<or> framerate \<le> 0 then Inl WaveError
      else if 65536 \<le> nchannels \<or> 65536 \<le> nchannels * sampwidth
              \<or> 4294967296 \<le> framerate
              \<or> 4294967296 \<le> int nchannels * framerate * int sampwidth
              \<or> 4294967296 \<le> 36 + length frames
           then Inl StructError
      else Inr (wave_header nchannels sampwidth (nat framerate) (length frames) @ frames))"

section \<open>The model registry: \<open>WhisperModelName\<close>\<close>

datatype WhisperModelName = tiny | base | small | medium | large_v3

fun value_of :: "WhisperModelName \<Rightarrow> pystr" where
  "value_of tiny = ustr ''tiny''"
| "value_of base = ustr ''base''"
| "value_of small = ustr ''small''"
| "value_of medium = ustr ''medium''"
| "value_of large_v3 = ustr ''large-v3''"

text \<open>Iterating over the enumeration yields its members in definition order.\<close>

definition members :: "WhisperModelName list" where
  "members = [tiny, base, small, medium, large_v3]"

text \<open>
  \<open>[m.value for m in WhisperModelName]\<close>, the list the user interface offers.
\<close>

definition model_choices :: "pystr list" where
  "model_choices = map value_of members"

text \<open>
  \<open>WhisperModelName(raw)\<close>: the member whose value is \<open>raw\<close>; a \<open>ValueError\<close> when
  there is none (the text of Python's message, which quotes \<open>raw\<close>, is abbreviated).
\<close>

definition WhisperModelName_call :: "pystr \<Rightarrow> error + WhisperModelName" where
  "WhisperModelName_call raw =
     (case find (\<lambda>m. value_of m = raw) members of
        Some m \<Rightarrow> Inr m
      | None \<Rightarrow> Inl (ValueError ''not a valid WhisperModelName''))"

section \<open>Results, the engine and its environment\<close>

record TranscriptionResult =
  res_text :: pystr
  detected_language :: "pystr option"
  language_probability :: "real option"
  seconds :: real

definition zero_result :: TranscriptionResult where
  "zero_result =
     \<lparr>res_text = [], detected_language = None, language_probability = None, seconds = 0\<rparr>"

text \<open>
  A loaded \<open>WhisperModel\<close> object is an opaque handle. An engine (\<open>WhisperSTT\<close>) has
  the fields \<open>__init__\<close> sets; \<open>model = None\<close> is the state Uninitialized. The lock
  \<open>_init_lock\<close> is free before and after every sequential call, so it is part of the
  concurrent model below only.
\<close>

type_synonym handle = nat

record WhisperSTT =
  model_name :: WhisperModelName
  device :: pystr
  compute_type :: pystr
  model :: "handle option"

text \<open>\<open>x or default\<close> on an optional string: \<open>None\<close> and \<open>""\<close> are both falsy.\<close>

definition or_default :: "pystr option \<Rightarrow> pystr \<Rightarrow> pystr" where
  "or_default x d = (case x of None \<Rightarrow> d | Some s \<Rightarrow> if s = [] then d else s)"

definition default_device_config :: "pystr option \<Rightarrow> pystr option \<Rightarrow> pystr \<times> pystr" where
  "default_device_config dev ct = (or_default dev (ustr ''cuda''), or_default ct (ustr ''float16''))"

definition WhisperSTT_init ::
  "WhisperModelName \<Rightarrow> pystr option \<Rightarrow> pystr option \<Rightarrow> WhisperSTT" where
  "WhisperSTT_init name dev ct =
     (let (d, c) = default_device_config dev ct
      in \<lparr>model_name = name, device = d, compute_type = c, model = None\<rparr>)"

text \<open>
  What a call does to its surroundings is recorded in an explicit world: the file system
  (path to contents), the number of clock readings taken, and a trace of the calls that
  leave the engine's own code.
\<close>

datatype event =
    Transcribe pystr "pystr option" int bool
  | EnsureModel
  | LoadModel pystr pystr pystr
  | Inference handle pystr "pystr option" int bool
  | TempCreated pystr bytes
  | Removed pystr

record world =
  files :: "pystr \<rightharpoonup> bytes"
  ticks :: nat
  trace :: "event list"

definition emit :: "event \<Rightarrow> world \<Rightarrow> world" where
  "emit ev w = w\<lparr>trace := trace w @ [ev]\<rparr>"

definition path_exists :: "world \<Rightarrow> pystr \<Rightarrow> bool" where
  "path_exists w p \<longleftrightarrow> files w p \<noteq> None"

text \<open>The metadata object of an inference; \<open>getattr(info, name, None)\<close> reads a field.\<close>

record info =
  info_language :: "pystr option"
  info_language_probability :: "real option"

text \<open>
  What the operating system does with a new temporary file: it is created and written; or
  its creation fails; or it is created and the write fails, leaving some contents behind.
\<close>

datatype temp_verdict = Written | CreateFails | WriteFails bytes

text \<open>
  The surroundings are parameters: the \<open>WhisperModel\<close> constructor and its
  \<open>transcribe\<close> method (either may raise; an exception raised while the segments are
  consumed counts as raised by the call), the clock \<open>time.time\<close>, the name
  \<open>tempfile\<close> picks before it appends the suffix, the fate of the temporary file of
  that name and contents, and whether the operating system refuses to remove an existing
  file. Each may depend on the world it is called in.
\<close>

record env =
  new_WhisperModel :: "world \<Rightarrow> pystr \<Rightarrow> pystr \<Rightarrow> pystr \<Rightarrow> error + handle"
  model_transcribe ::
    "world \<Rightarrow> handle \<Rightarrow> pystr \<Rightarrow> pystr option \<Rightarrow> int \<Rightarrow> bool \<Rightarrow> error + (pystr list \<times> info)"
  time_time :: "world \<Rightarrow> real"
  temp_stem :: "world \<Rightarrow> pystr"
  temp_verdict :: "world \<Rightarrow> pystr \<Rightarrow> bytes \<Rightarrow> temp_verdict"
  remove_refused :: "world \<Rightarrow> pystr \<Rightarrow> bool"

definition read_clock :: "env \<Rightarrow> world \<Rightarrow> real \<times> world" where
  "read_clock E w = (time_time E w, w\<lparr>ticks := Suc (ticks w)\<rparr>)"

section \<open>\<open>WhisperSTT._ensure_model\<close>, one caller at a time\<close>

definition ensure_model :: "env \<Rightarrow> WhisperSTT \<times> world \<Rightarrow> (error + handle) \<times> WhisperSTT \<times> world" where
  "ensure_model E = (\<lambda>(self, w0).
     let w = emit EnsureModel w0 in
     case model self of
       Some m \<Rightarrow> (Inr m, self, w)
     | None \<Rightarrow>
         \<comment> \<open>\<open>with self._init_lock:\<close> the check again, then the constructor\<close>
         (case model self of
            Some m \<Rightarrow> (Inr m, self, w)
          | None \<Rightarrow>
              (let w1 = emit (LoadModel (value_of (model_name self)) (device self) (compute_type self)) w
               in case new_WhisperModel E w (value_of (model_name self)) (device self)
                         (compute_type self) of
                    Inl err \<Rightarrow> (Inl err, self, w1)
                  | Inr m \<Rightarrow> (Inr m, self\<lparr>model := Some m\<rparr>, w1))))"

section \<open>\<open>WhisperSTT.transcribe\<close>\<close>

text \<open>\<open>language.strip() if language and language.strip() else None\<close>\<close>

definition normalize_language :: "pystr option \<Rightarrow> pystr option" where
  "normalize_language language =
     (case language of
        None \<Rightarrow> None
      | Some l \<Rightarrow> if l \<noteq> [] \<and> strip l \<noteq> [] then Some (strip l) else None)"

text \<open>
  \<open>model.transcribe(audio_path, language=..., beam_size=..., vad_filter=...)\<close>: the
  library is called with these arguments, and the trace records the call with the same
  arguments.
\<close>

definition call_model_transcribe ::
  "env \<Rightarrow> handle \<Rightarrow> pystr \<Rightarrow> pystr option \<Rightarrow> int \<Rightarrow> bool \<Rightarrow> world
     \<Rightarrow> (error + (pystr list \<times> info)) \<times> world" where
  "call_model_transcribe E m p l b v w =
     (model_transcribe E w m p l b v, emit (Inference m p l b v) w)"

definition transcribe ::
  "env \<Rightarrow> pystr \<Rightarrow> pystr option \<Rightarrow> int \<Rightarrow> bool \<Rightarrow> WhisperSTT \<times> world
     \<Rightarrow> (error + TranscriptionResult) \<times> WhisperSTT \<times> world" where
  "transcribe E audio_path language beam_size vad_filter = (\<lambda>(self, w0).
     let w = emit (Transcribe audio_path language beam_size vad_filter) w0 in
     if audio_path = [] \<or> \<not> path_exists w audio_path then
       (Inr \<lparr>res_text = [], detected_language = None, language_probability = None,
             seconds = 0\<rparr>, self, w)
     else if beam_size < 1 \<or> beam_size > 10 then
       (Inl (ValueError ''beam_size must be between 1 and 10''), self, w)
     else
       case ensure_model E (self, w) of
         (Inl err, self1, w1) \<Rightarrow> (Inl err, self1, w1)
       | (Inr m, self1, w1) \<Rightarrow>
           (let lang = normalize_language language;
                (t0, w2) = read_clock E w1;
                (answer, w3) = call_model_transcribe E m audio_path lang beam_size vad_filter w2
            in case answer of
                 Inl err \<Rightarrow> (Inl err, self1, w3)
               | Inr (segments, meta) \<Rightarrow>
                   (let (t1, w4) = read_clock E w3;
                        secs = t1 - t0;
                        txt = strip (join_empty segments)
                    in (Inr \<lparr>res_text = txt,
                             detected_language = info_language meta,
                             language_probability = info_language_probability meta,
                             seconds = secs\<rparr>, self1, w4))))"

section \<open>\<open>WhisperSTT.transcribe_pcm16\<close>\<close>

text \<open>
  \<open>with tempfile.NamedTemporaryFile(delete=False, suffix=...) as tmp:\<close> with the write
  of the contents and the read of \<open>tmp.name\<close>. When the creation fails there is no file;
  when the write fails the file stays (\<open>delete=False\<close>) with what was written of it. In
  both cases the \<open>OSError\<close> leaves the block.
\<close>

definition named_temporary_file ::
  "env \<Rightarrow> pystr \<Rightarrow> bytes \<Rightarrow> world \<Rightarrow> (error + pystr) \<times> world" where
  "named_temporary_file E suffix content w =
     (let name = temp_stem E w @ suffix
      in case temp_verdict E w name content of
           CreateFails \<Rightarrow> (Inl OSError, w)
         | WriteFails part \<Rightarrow>
             (Inl OSError, emit (TempCreated name part) (w\<lparr>files := (files w)(name \<mapsto> part)\<rparr>))
         | Written \<Rightarrow>
             (Inr name, emit (TempCreated name content) (w\<lparr>files := (files w)(name \<mapsto> content)\<rparr>)))"

text \<open>
  \<open>os.remove(path)\<close>: deletes the file; an \<open>OSError\<close> when there is none, or when the
  operating system refuses, and then the file stays.
\<close>

definition os_remove :: "env \<Rightarrow> pystr \<Rightarrow> world \<Rightarrow> (error + unit) \<times> world" where
  "os_remove E p w =
     (let w1 = emit (Removed p) w
      in if path_exists w p \<and> \<not> remove_refused E w p
         then (Inr (), w1\<lparr>files := (files w1)(p := None)\<rparr>)
         else (Inl OSError, w1))"

definition transcribe_pcm16 ::
  "env \<Rightarrow> bytes \<Rightarrow> int \<Rightarrow> pystr option \<Rightarrow> int \<Rightarrow> bool \<Rightarrow> WhisperSTT \<times> world
     \<Rightarrow> (error + TranscriptionResult) \<times> WhisperSTT \<times> world" where
  "transcribe_pcm16 E pcm16le sample_rate language beam_size vad_filter = (\<lambda>(self, w).
     if pcm16le = [] then
       (Inr \<lparr>res_text = [], detected_language = None, language_probability = None,
             seconds = 0\<rparr>, self, w)
     else
       \<comment> \<open>the container is built in memory; an exception of the writer goes to the caller\<close>
       case wave_write 1 2 sample_rate pcm16le of
         Inl err \<Rightarrow> (Inl err, self, w)
       | Inr buf \<Rightarrow>
           \<comment> \<open>the temporary file, outside the \<open>try\<close>\<close>
           (case named_temporary_file E (ustr ''.wav'') buf w of
              (Inl err, w1) \<Rightarrow> (Inl err, self, w1)
            | (Inr tmp_path, w1) \<Rightarrow>
                \<comment> \<open>\<open>try: return self.transcribe(...)\<close>\<close>
                (let (r, self1, w2) =
                       transcribe E tmp_path language beam_size vad_filter (self, w1);
                     \<comment> \<open>\<open>finally:\<close> remove the file, an \<open>OSError\<close> of the removal is
                         dropped; then the result is returned or the exception goes on\<close>
                     w3 = (case os_remove E tmp_path w2 of
                             (Inl err, w') \<Rightarrow> w'
                           | (Inr u, w') \<Rightarrow> w')
                 in (r, self1, w3))))"

section \<open>The engine cache: \<open>ENGINES\<close> and \<open>get_engine\<close>\<close>

text \<open>
  Engines are objects: the cache maps a model name to a reference, and the objects live in
  a store in which a reference is an index. Constructing an object appends it to the store.
\<close>

record server =
  store :: "WhisperSTT list"
  ENGINES :: "WhisperModelName \<rightharpoonup> nat"

definition get_engine :: "WhisperModelName \<Rightarrow> server \<Rightarrow> (error + nat) \<times> server" where
  "get_engine m s =
     (let s1 = (if ENGINES s m = None
                then s\<lparr>store := store s @ [WhisperSTT_init m None None],
                       ENGINES := (ENGINES s)(m \<mapsto> length (store s))\<rparr>
                else s)
      in case ENGINES s1 m of
           None \<Rightarrow> (Inl KeyError, s1)
         | Some ref \<Rightarrow> (Inr ref, s1))"

section \<open>\<open>WhisperSTT._ensure_model\<close> under concurrent callers\<close>

text \<open>
  Several threads run \<open>_ensure_model\<close> on one engine. A thread is at one of the shared
  accesses of the method, named by source line: the unguarded test (60) and its return (61),
  the entry of the \<open>with\<close> block (63), the test under the lock (64), the constructor call
  and the store of its result (65), the exit of the \<open>with\<close> block, normal or with the
  constructor's exception on its way out, and the final return (70). Reads and writes of
  \<open>self._model\<close> are atomic and a step of one thread is one such access; the lock is
  held by at most one thread and a thread at line 63 waits while it is held.
  Every constructor call yields a new object: the handle is the number of the call.
\<close>

datatype pc =
    L60 | L61 | L63 | L64 | L65_call | L65_store handle | Exit_with | Exit_raise | L70
  | Returned "handle option" | Raised

record shared =
  s_model :: "handle option"
  s_lock :: "nat option"
  pcs :: "pc list"
  attempts :: nat
  created :: nat
  failed :: nat

definition goto :: "nat \<Rightarrow> pc \<Rightarrow> shared \<Rightarrow> shared" where
  "goto t p s = s\<lparr>pcs := (pcs s)[t := p]\<rparr>"

text \<open>
  One step of thread \<open>t\<close>; \<open>ok\<close> tells whether the constructor returns, should this step
  call it. \<open>None\<close>: the thread cannot move (it waits for the lock, or has finished).
\<close>

definition step :: "nat \<Rightarrow> bool \<Rightarrow> shared \<Rightarrow> shared option" where
  "step t ok s =
     (if length (pcs s) \<le> t then None
      else case pcs s ! t of
        L60 \<Rightarrow> Some (goto t (if s_model s \<noteq> None then L61 else L63) s)
      | L61 \<Rightarrow> Some (goto t (Returned (s_model s)) s)
      | L63 \<Rightarrow> if s_lock s = None then Some (goto t L64 (s\<lparr>s_lock := Some t\<rparr>)) else None
      | L64 \<Rightarrow> Some (goto t (if s_model s = None then L65_call else Exit_with) s)
      | L65_call \<Rightarrow>
          if ok then Some (goto t (L65_store (attempts s))
                             (s\<lparr>attempts := Suc (attempts s), created := Suc (created s)\<rparr>))
          else Some (goto t Exit_raise (s\<lparr>attempts := Suc (attempts s), failed := Suc (failed s)\<rparr>))
      | L65_store h \<Rightarrow> Some (goto t Exit_with (s\<lparr>s_model := Some h\<rparr>))
      | Exit_with \<Rightarrow> Some (goto t L70 (s\<lparr>s_lock := None\<rparr>))
      | Exit_raise \<Rightarrow> Some (goto t Raised (s\<lparr>s_lock := None\<rparr>))
      | L70 \<Rightarrow> Some (goto t (Returned (s_model s)) s)
      | Returned ho \<Rightarrow> None
      | Raised \<Rightarrow> None)"

text \<open>A schedule names the thread to move next; a thread that cannot move is passed over.\<close>

fun run :: "(nat \<times> bool) list \<Rightarrow> shared \<Rightarrow> shared" where
  "run [] s = s"
| "run ((t, ok) # sched) s = (case step t ok s of None \<Rightarrow> run sched s | Some s' \<Rightarrow> run sched s')"

text \<open>A fresh engine with \<open>n\<close> callers about to enter \<open>_ensure_model\<close>.\<close>

definition fresh :: "nat \<Rightarrow> shared" where
  "fresh n = \<lparr>s_model = None, s_lock = None, pcs = replicate n L60,
              attempts = 0, created = 0, failed = 0\<rparr>"

fun finished :: "pc \<Rightarrow> bool" where
  "finished (Returned ho) = True"
| "finished Raised = True"
| "finished p = False"

text \<open>The number of steps a thread can still take, at most.\<close>

fun rank :: "pc \<Rightarrow> nat" where
  "rank L60 = 7"
| "rank L61 = 1"
| "rank L63 = 6"
| "rank L64 = 5"
| "rank L65_call = 4"
| "rank (L65_store h) = 3"
| "rank Exit_with = 2"
| "rank Exit_raise = 1"
| "rank L70 = 1"
| "rank (Returned ho) = 0"
| "rank Raised = 0"

definition remaining :: "shared \<Rightarrow> nat" where
  "remaining s = sum_list (map rank (pcs s))"

text \<open>Inside the \<open>with\<close> block, from the acquisition of the lock to its release.\<close>

fun in_with :: "pc \<Rightarrow> bool" where
  "in_with L64 = True"
| "in_with L65_call = True"
| "in_with (L65_store h) = True"
| "in_with Exit_with = True"
| "in_with Exit_raise = True"
| "in_with p = False"

text \<open>
  What a thread at a given place knows of \<open>self._model\<close>, as a condition on the stored
  value \<open>m\<close>: before the constructor call and before the store it has read \<open>None\<close> under
  the lock; at a return, and at the exit of the block, it has seen a model; once returned,
  it holds the stored model.
\<close>

fun sees :: "handle option \<Rightarrow> pc \<Rightarrow> bool" where
  "sees m L61 = (m \<noteq> None)"
| "sees m L65_call = (m = None)"
| "sees m (L65_store h) = (m = None)"
| "sees m Exit_with = (m \<noteq> None)"
| "sees m L70 = (m \<noteq> None)"
| "sees m (Returned ho) = (ho = m \<and> m \<noteq> None)"
| "sees m p = True"

fun storing :: "pc \<Rightarrow> bool" where
  "storing (L65_store h) = True"
| "storing p = False"

fun raising :: "pc \<Rightarrow> bool" where
  "raising Exit_raise = True"
| "raising Raised = True"
| "raising p = False"

text \<open>
  The invariant of the protocol: the lock is held exactly by the thread inside the block;
  every thread's knowledge of \<open>self._model\<close> is true of the stored value; one object has
  been constructed if a model is stored or about to be stored, none otherwise; every
  constructor call either made an object or raised, and a failure has a raising thread.
\<close>

definition lock_inv :: "shared \<Rightarrow> bool" where
  "lock_inv s \<longleftrightarrow>
     (\<forall>t<length (pcs s). in_with (pcs s ! t) \<longrightarrow> s_lock s = Some t) \<and>
     (\<forall>t. s_lock s = Some t \<longrightarrow> t < length (pcs s) \<and> in_with (pcs s ! t))"

definition model_inv :: "shared \<Rightarrow> bool" where
  "model_inv s \<longleftrightarrow> (\<forall>t<length (pcs s). sees (s_model s) (pcs s ! t))"

definition count_inv :: "shared \<Rightarrow> bool" where
  "count_inv s \<longleftrightarrow>
     created s = (if s_model s \<noteq> None \<or> (\<exists>t<length (pcs s). storing (pcs s ! t))
                  then 1 else 0) \<and>
     attempts s = created s + failed s \<and>
     (failed s = 0 \<or> (\<exists>t<length (pcs s). raising (pcs s ! t)))"

definition single_flight :: "shared \<Rightarrow> bool" where
  "single_flight s \<longleftrightarrow> lock_inv s \<and> model_inv s \<and> count_inv s"

section \<open>Observations on a call\<close>

text \<open>The events a call appended to the trace.\<close>

definition new_events :: "world \<Rightarrow> world \<Rightarrow> event list" where
  "new_events w w' = drop (length (trace w)) (trace w')"

definition outcome :: "'r \<times> WhisperSTT \<times> world \<Rightarrow> 'r" where
  "outcome x = fst x"

definition engine_after :: "'r \<times> WhisperSTT \<times> world \<Rightarrow> WhisperSTT" where
  "engine_after x = fst (snd x)"

definition world_after :: "'r \<times> WhisperSTT \<times> world \<Rightarrow> world" where
  "world_after x = snd (snd x)"

text \<open>The events of \<open>_ensure_model\<close> and of the inference.\<close>

fun engine_event :: "event \<Rightarrow> bool" where
  "engine_event EnsureModel = True"
| "engine_event (LoadModel n d c) = True"
| "engine_event (Inference m p l b v) = True"
| "engine_event ev = False"

text \<open>What a trace shows: the language of each inference, the temporary files created
  and the paths handed to \<open>transcribe\<close>.\<close>

fun passed_language :: "event \<Rightarrow> pystr option option" where
  "passed_language (Inference m p l b v) = Some l"
| "passed_language ev = None"

fun temp_created :: "event \<Rightarrow> (pystr \<times> bytes) option" where
  "temp_created (TempCreated p c) = Some (p, c)"
| "temp_created ev = None"

fun transcribe_path :: "event \<Rightarrow> pystr option" where
  "transcribe_path (Transcribe p l b v) = Some p"
| "transcribe_path ev = None"

text \<open>A small concrete environment, file system and engine for evaluating the definitions.\<close>

definition demo_env :: env where
  "demo_env =
     \<lparr>new_WhisperModel = (\<lambda>w n d c. Inr 7),
      model_transcribe = (\<lambda>w m p l b v.
         Inr ([ustr ''hello'', ustr '' world''],
              \<lparr>info_language = Some (ustr ''en''), info_language_probability = Some (9 / 10)\<rparr>)),
      time_time = (\<lambda>w. real (ticks w)),
      temp_stem = (\<lambda>w. ustr ''/tmp/tmpa1''),
      temp_verdict = (\<lambda>w name content. Written),
      remove_refused = (\<lambda>w p. False)\<rparr>"

text \<open>The same surroundings with an inference that reports the language it was given.\<close>

definition echo_env :: env where
  "echo_env =
     demo_env\<lparr>model_transcribe := (\<lambda>w m p l b v.
        Inr ([], \<lparr>info_language = l, info_language_probability = None\<rparr>))\<rparr>"

text \<open>The same surroundings with an operating system that refuses every removal.\<close>

definition stubborn_env :: env where
  "stubborn_env = demo_env\<lparr>remove_refused := (\<lambda>w p. True)\<rparr>"

definition demo_world :: world where
  "demo_world = \<lparr>files = [ustr ''a.wav'' \<mapsto> [1, 2]], ticks = 0, trace = []\<rparr>"

definition demo_engine :: WhisperSTT where
  "demo_engine = WhisperSTT_init tiny None None"

definition demo_server :: server where
  "demo_server = \<lparr>store = [], ENGINES = Map.empty\<rparr>"

text \<open>
  Two callers that both pass the unguarded test before either holds the lock; the second
  is scheduled once while it waits.
\<close>

definition demo_schedule :: "(nat \<times> bool) list" where
  "demo_schedule =
     [(0, True), (1, True), (0, True), (1, True), (0, True), (0, True), (0, True), (0, True),
      (0, True), (1, True), (1, True), (1, True), (1, True)]"

section \<open>Facts about \<open>strip\<close>\<close>


lemma split_at_right: "xs = rev (dropWhile P (rev xs)) @ rev (takeWhile P (rev xs))"
  by (metis rev_append rev_rev_ident takeWhile_dropWhile_id)

lemma strip_decompose:
  "\<exists>l r. s = l @ strip s @ r \<and> (\<forall>c\<in>set l. isspace c) \<and> (\<forall>c\<in>set r. isspace c)"
proof -
  let ?m = "dropWhile isspace s"
  let ?r = "rev (takeWhile isspace (rev ?m))"
  have "s = takeWhile isspace s @ ?m" by simp
  also have "?m = strip s @ ?r"
    unfolding strip_def by (rule split_at_right)
  finally have "s = takeWhile isspace s @ strip s @ ?r" .
  moreover have "\<forall>c\<in>set (takeWhile isspace s). isspace c"
    by (auto dest: set_takeWhileD)
  moreover have "\<forall>c\<in>set ?r. isspace c"
    by (auto dest: set_takeWhileD)
  ultimately show ?thesis by blast
qed

lemma strip_hd: "strip s \<noteq> [] \<Longrightarrow> \<not> isspace (hd (strip s))"
proof -
  assume ne: "strip s \<noteq> []"
  let ?m = "dropWhile isspace s"
  have m: "?m = strip s @ rev (takeWhile isspace (rev ?m))"
    unfolding strip_def by (rule split_at_right)
  with ne have "?m \<noteq> []" by (metis append_is_Nil_conv)
  then have "\<not> isspace (hd ?m)" by (rule hd_dropWhile)
  moreover from m ne have "hd ?m = hd (strip s)" by (metis hd_append2)
  ultimately show ?thesis by simp
qed

lemma strip_last: "strip s \<noteq> [] \<Longrightarrow> \<not> isspace (last (strip s))"
proof -
  assume ne: "strip s \<noteq> []"
  let ?k = "dropWhile isspace (rev (dropWhile isspace s))"
  from ne have kne: "?k \<noteq> []" unfolding strip_def by (metis rev_is_Nil_conv)
  then have "\<not> isspace (hd ?k)" by (rule hd_dropWhile)
  moreover have "last (strip s) = hd ?k" unfolding strip_def by (metis last_rev)
  ultimately show ?thesis by simp
qed

lemma strip_empty_iff: "strip s = [] \<longleftrightarrow> (\<forall>c\<in>set s. isspace c)"
proof
  assume "strip s = []"
  with strip_decompose [of s] show "\<forall>c\<in>set s. isspace c" 
    by (metis UnE append_Nil set_append)
next
  assume "\<forall>c\<in>set s. isspace c"
  then show "strip s = []" by (auto simp: strip_def dest: set_dropWhileD)
qed

section \<open>Missing input\<close>

lemma transcribe_missing:
  assumes "audio_path = [] \<or> files w audio_path = None"
  shows "transcribe E audio_path language beam_size vad_filter (self, w) =
           (Inr zero_result, self, emit (Transcribe audio_path language beam_size vad_filter) w)"
  using assms by (auto simp: transcribe_def Let_def path_exists_def emit_def zero_result_def)

text \<open>
  Claim C1. For a missing or empty audio path, \<open>transcribe\<close> returns the zero result
  (empty text, no language, no probability, zero seconds) at once: the engine is left as it
  was, so an Uninitialized engine stays Uninitialized, the file system is untouched, and the
  only event of the call is its own entry, so \<open>_ensure_model\<close> is not invoked and no model
  is loaded.
\<close>

theorem transcribe_missing_path_zero_no_init:
  assumes "audio_path = [] \<or> audio_path \<notin> dom (files w)"
  shows "outcome (transcribe E audio_path language beam_size vad_filter (self, w)) =
           Inr \<lparr>res_text = [], detected_language = None, language_probability = None,
                seconds = 0\<rparr>
       \<and> engine_after (transcribe E audio_path language beam_size vad_filter (self, w)) = self
       \<and> files (world_after (transcribe E audio_path language beam_size vad_filter (self, w)))
           = files w
       \<and> new_events w (world_after (transcribe E audio_path language beam_size vad_filter (self, w)))
           = [Transcribe audio_path language beam_size vad_filter]
       \<and> EnsureModel \<notin> set (new_events w
             (world_after (transcribe E audio_path language beam_size vad_filter (self, w))))"
proof -
  from assms have "audio_path = [] \<or> files w audio_path = None"
    by (auto simp: dom_def)
  then show ?thesis
    by (simp add: transcribe_missing outcome_def engine_after_def world_after_def
        new_events_def emit_def zero_result_def)
qed

theorem transcribe_missing_path_zero_no_init_witness:
  "outcome (transcribe demo_env (ustr ''missing.wav'') None 5 True (demo_engine, demo_world)) =
     Inr \<lparr>res_text = [], detected_language = None, language_probability = None, seconds = 0\<rparr>
   \<and> model (engine_after
        (transcribe demo_env (ustr ''missing.wav'') None 5 True (demo_engine, demo_world))) = None
   \<and> EnsureModel \<notin> set (new_events demo_world (world_after
        (transcribe demo_env (ustr ''missing.wav'') None 5 True (demo_engine, demo_world))))"
proof -
  have missing: "ustr ''missing.wav'' = [] \<or> ustr ''missing.wav'' \<notin> dom (files demo_world)"
    by (simp add: demo_world_def ustr_def)
  have uninit: "model demo_engine = None"
    by (simp add: demo_engine_def WhisperSTT_init_def default_device_config_def)
  from transcribe_missing_path_zero_no_init [OF missing, of demo_env None 5 True demo_engine] uninit
  show ?thesis by simp
qed

section \<open>Valid input\<close>

lemma ensure_model_effect:
  assumes "ensure_model E (self, w) = (r, self', w')"
  shows "files w' = files w \<and> ticks w' = ticks w
       \<and> (trace w' = trace w @ [EnsureModel]
          \<or> trace w' = trace w @ [EnsureModel,
               LoadModel (value_of (model_name self)) (device self) (compute_type self)])"
  using assms
  by (auto simp: ensure_model_def Let_def emit_def split: option.splits sum.splits)

lemma transcribe_valid:
  assumes "audio_path \<noteq> []" and "files w audio_path \<noteq> None"
    and "1 \<le> beam_size" and "beam_size \<le> 10"
    and "ensure_model E (self, emit (Transcribe audio_path language beam_size vad_filter) w)
           = (Inr m, self1, w1)"
  shows "transcribe E audio_path language beam_size vad_filter (self, w) =
     (let lang = normalize_language language;
          w2 = w1\<lparr>ticks := Suc (ticks w1)\<rparr>;
          w3 = emit (Inference m audio_path lang beam_size vad_filter) w2
      in case model_transcribe E w2 m audio_path lang beam_size vad_filter of
           Inl err \<Rightarrow> (Inl err, self1, w3)
         | Inr (segments, meta) \<Rightarrow>
             (Inr \<lparr>res_text = strip (join_empty segments),
                   detected_language = info_language meta,
                   language_probability = info_language_probability meta,
                   seconds = time_time E w3 - time_time E w1\<rparr>, self1,
              w3\<lparr>ticks := Suc (ticks w3)\<rparr>))"
  using assms
  by (auto simp: transcribe_def Let_def path_exists_def read_clock_def emit_def
      call_model_transcribe_def split: sum.splits prod.splits)

lemma transcribe_effect:
  assumes "transcribe E audio_path language beam_size vad_filter (self, w) = (r, self', w')"
  shows "files w' = files w
       \<and> (\<exists>evs. trace w' = trace w @ Transcribe audio_path language beam_size vad_filter # evs
                \<and> list_all engine_event evs)"
proof (cases "audio_path = [] \<or> files w audio_path = None")
  case True
  from transcribe_missing [OF this, of E language beam_size vad_filter self] assms
  show ?thesis by (auto simp: emit_def)
next
  case valid: False
  show ?thesis
  proof (cases "beam_size < 1 \<or> beam_size > 10")
    case True
    with valid assms show ?thesis
      by (auto simp: transcribe_def Let_def path_exists_def emit_def)
  next
    case False
    let ?w0 = "emit (Transcribe audio_path language beam_size vad_filter) w"
    obtain q self1 w1 where em: "ensure_model E (self, ?w0) = (q, self1, w1)"
      by (metis prod_cases3)
    from ensure_model_effect [OF em]
    have f1: "files w1 = files w"
      and t1: "\<exists>evs. trace w1 = trace w @ Transcribe audio_path language beam_size vad_filter # evs
                \<and> list_all engine_event evs"
      by (auto simp: emit_def)
    show ?thesis
    proof (cases q)
      case (Inl err)
      with valid False em assms f1 t1 show ?thesis
        by (auto simp: transcribe_def Let_def path_exists_def emit_def)
    next
      case (Inr m)
      with valid False em have "transcribe E audio_path language beam_size vad_filter (self, w) =
        (let lang = normalize_language language;
          w2 = w1\<lparr>ticks := Suc (ticks w1)\<rparr>;
          w3 = emit (Inference m audio_path lang beam_size vad_filter) w2
         in case model_transcribe E w2 m audio_path lang beam_size vad_filter of
           Inl err \<Rightarrow> (Inl err, self1, w3)
         | Inr (segments, meta) \<Rightarrow>
             (Inr \<lparr>res_text = strip (join_empty segments),
                   detected_language = info_language meta,
                   language_probability = info_language_probability meta,
                   seconds = time_time E w3 - time_time E w1\<rparr>, self1,
              w3\<lparr>ticks := Suc (ticks w3)\<rparr>))"
        by (intro transcribe_valid) auto
      with assms f1 t1 show ?thesis
        by (auto simp: Let_def emit_def split: sum.splits prod.splits)
    qed
  qed
qed

text \<open>
  Claim C10. The existence check comes before the check of the beam size: for a missing or
  empty audio path \<open>transcribe\<close> returns the zero result and raises nothing, whatever
  the beam size, also outside 1..10.
\<close>

theorem transcribe_missing_path_ignores_beam_size:
  assumes "audio_path = [] \<or> audio_path \<notin> dom (files w)"
  shows "outcome (transcribe E audio_path language beam_size vad_filter (self, w)) =
           Inr \<lparr>res_text = [], detected_language = None, language_probability = None,
                seconds = 0\<rparr>
       \<and> (\<forall>err. outcome (transcribe E audio_path language beam_size vad_filter (self, w))
                  \<noteq> Inl err)"
proof -
  from assms have "audio_path = [] \<or> files w audio_path = None"
    by (auto simp: dom_def)
  then show ?thesis
    by (simp add: transcribe_missing outcome_def zero_result_def)
qed

theorem transcribe_missing_path_ignores_beam_size_witness:
  "outcome (transcribe demo_env [] None 11 True (demo_engine, demo_world)) = Inr zero_result
   \<and> outcome (transcribe demo_env [] None (- 3) True (demo_engine, demo_world)) = Inr zero_result"
proof -
  have missing: "[] = [] \<or> [] \<notin> dom (files demo_world)" by simp
  from transcribe_missing_path_ignores_beam_size [OF missing, of demo_env None 11 True demo_engine]
    transcribe_missing_path_ignores_beam_size [OF missing, of demo_env None "- 3" True demo_engine]
  show ?thesis by (simp add: zero_result_def)
qed

text \<open>
  Claim C2 says that a beam size outside 1..10 fails for valid and for invalid paths alike.
  On a path that does not exist the call with beam size 0 returns the zero result instead.
\<close>

theorem beam_size_before_path_counterexample:
  "outcome (transcribe demo_env (ustr ''does_not_exist.wav'') None 0 True (demo_engine, demo_world))
     = Inr zero_result
   \<and> outcome (transcribe demo_env (ustr ''does_not_exist.wav'') None 0 True (demo_engine, demo_world))
     \<noteq> Inl (ValueError ''beam_size must be between 1 and 10'')"
  by (simp add: transcribe_def Let_def path_exists_def emit_def outcome_def zero_result_def
      demo_world_def ustr_def)

text \<open>
  Claim C2, amended. For a beam size outside 1..10, \<open>transcribe\<close> on a non-empty path
  of an existing file raises the \<open>ValueError\<close>, with the engine unchanged and no event
  but the call itself (no \<open>_ensure_model\<close>, no inference); on a missing or empty path
  it returns the zero result.
\<close>

theorem transcribe_beam_size_out_of_range:
  assumes "beam_size < 1 \<or> 10 < beam_size"
  shows "(audio_path \<noteq> [] \<and> audio_path \<in> dom (files w) \<longrightarrow>
            outcome (transcribe E audio_path language beam_size vad_filter (self, w)) =
              Inl (ValueError ''beam_size must be between 1 and 10'')
          \<and> engine_after (transcribe E audio_path language beam_size vad_filter (self, w)) = self
          \<and> new_events w (world_after (transcribe E audio_path language beam_size vad_filter (self, w)))
              = [Transcribe audio_path language beam_size vad_filter])
       \<and> (audio_path = [] \<or> audio_path \<notin> dom (files w) \<longrightarrow>
            outcome (transcribe E audio_path language beam_size vad_filter (self, w)) =
              Inr zero_result)"
  using assms
  by (auto simp: transcribe_def Let_def path_exists_def emit_def outcome_def engine_after_def
      world_after_def new_events_def zero_result_def dom_def)

theorem transcribe_beam_size_out_of_range_witness:
  "outcome (transcribe demo_env (ustr ''a.wav'') None 0 True (demo_engine, demo_world)) =
     Inl (ValueError ''beam_size must be between 1 and 10'')
   \<and> outcome (transcribe demo_env (ustr ''nothing.wav'') None 42 True (demo_engine, demo_world)) =
     Inr zero_result"
proof -
  have low: "(0::int) < 1 \<or> 10 < (0::int)" and high: "(42::int) < 1 \<or> 10 < (42::int)"
    by simp_all
  have there: "ustr ''a.wav'' \<noteq> [] \<and> ustr ''a.wav'' \<in> dom (files demo_world)"
    by (simp add: demo_world_def ustr_def)
  have absent: "ustr ''nothing.wav'' = [] \<or> ustr ''nothing.wav'' \<notin> dom (files demo_world)"
    by (simp add: demo_world_def ustr_def)
  from transcribe_beam_size_out_of_range [OF low, of "ustr ''a.wav''" demo_world demo_env None True demo_engine]
    transcribe_beam_size_out_of_range [OF high, of "ustr ''nothing.wav''" demo_world demo_env None True demo_engine]
    there absent
  show ?thesis by blast
qed

lemma demo_engine_fields:
  "demo_engine = \<lparr>model_name = tiny, device = ustr ''cuda'', compute_type = ustr ''float16'',
                  model = None\<rparr>"
  by (simp add: demo_engine_def WhisperSTT_init_def default_device_config_def or_default_def)

lemma demo_ensure_model:
  "ensure_model demo_env (demo_engine, w) =
     (Inr 7, demo_engine\<lparr>model := Some 7\<rparr>,
      emit (LoadModel (ustr ''tiny'') (ustr ''cuda'') (ustr ''float16'')) (emit EnsureModel w))"
  by (simp add: ensure_model_def demo_engine_fields demo_env_def Let_def)

text \<open>
  Claim C5. On a valid call whose inference yields the segment texts \<open>segments\<close>, the
  text of the result is their concatenation in order, with nothing inserted, stripped:
  the concatenation is the result text between two runs of whitespace, and a non-empty
  result text neither begins nor ends with whitespace. The segments \<open>hello\<close> and
  \<open> world\<close> give \<open>hello world\<close>.
\<close>

theorem transcribe_text_joins_and_trims_segments:
  assumes "audio_path \<noteq> []" and "audio_path \<in> dom (files w)"
    and "1 \<le> beam_size" and "beam_size \<le> 10"
    and "ensure_model E (self, emit (Transcribe audio_path language beam_size vad_filter) w)
           = (Inr m, self1, w1)"
    and "model_transcribe E (snd (read_clock E w1)) m audio_path (normalize_language language)
           beam_size vad_filter = Inr (segments, meta)"
  shows "\<exists>r. outcome (transcribe E audio_path language beam_size vad_filter (self, w)) = Inr r
       \<and> res_text r = strip (concat segments)
       \<and> (\<exists>l t. concat segments = l @ res_text r @ t
               \<and> (\<forall>c\<in>set l. isspace c) \<and> (\<forall>c\<in>set t. isspace c))
       \<and> (res_text r \<noteq> [] \<longrightarrow> \<not> isspace (hd (res_text r)) \<and> \<not> isspace (last (res_text r)))
       \<and> (segments = [ustr ''hello'', ustr '' world''] \<longrightarrow> res_text r = ustr ''hello world'')"
proof -
  from assms(2) have ex: "files w audio_path \<noteq> None" by (auto simp: dom_def)
  let ?r = "\<lparr>res_text = strip (concat segments),
             detected_language = info_language meta,
             language_probability = info_language_probability meta,
             seconds = time_time E (emit (Inference m audio_path (normalize_language language)
                          beam_size vad_filter) (w1\<lparr>ticks := Suc (ticks w1)\<rparr>)) - time_time E w1\<rparr>"
  from assms(6) have "outcome (transcribe E audio_path language beam_size vad_filter (self, w)) = Inr ?r"
    by (simp add: transcribe_valid [OF assms(1) ex assms(3,4,5)] Let_def outcome_def
        read_clock_def join_empty_def)
  moreover have "strip (concat [ustr ''hello'', ustr '' world'']) = ustr ''hello world''"
    by (simp add: strip_def ustr_def isspace_def)
  ultimately show ?thesis
    using strip_decompose [of "concat segments"] strip_hd [of "concat segments"]
      strip_last [of "concat segments"]
    by auto
qed

theorem transcribe_text_joins_and_trims_segments_witness:
  "\<exists>r. outcome (transcribe demo_env (ustr ''a.wav'') (Some (ustr ''en'')) 5 True
            (demo_engine, demo_world)) = Inr r
     \<and> res_text r = ustr ''hello world''"
proof -
  let ?w1 = "emit (LoadModel (ustr ''tiny'') (ustr ''cuda'') (ustr ''float16''))
              (emit EnsureModel (emit (Transcribe (ustr ''a.wav'') (Some (ustr ''en'')) 5 True)
                 demo_world))"
  have p1: "ustr ''a.wav'' \<noteq> []" and p2: "ustr ''a.wav'' \<in> dom (files demo_world)"
    by (simp_all add: demo_world_def ustr_def)
  have b1: "(1::int) \<le> 5" and b2: "(5::int) \<le> 10" by simp_all
  have inf: "model_transcribe demo_env (snd (read_clock demo_env ?w1)) 7 (ustr ''a.wav'')
      (normalize_language (Some (ustr ''en''))) 5 True =
      Inr ([ustr ''hello'', ustr '' world''],
           \<lparr>info_language = Some (ustr ''en''), info_language_probability = Some (9 / 10)\<rparr>)"
    by (simp add: demo_env_def)
  from transcribe_text_joins_and_trims_segments [OF p1 p2 b1 b2 demo_ensure_model inf]
  show ?thesis by auto
qed

lemma normalize_language_spec:
  "normalize_language language =
     (case language of
        None \<Rightarrow> None
      | Some l \<Rightarrow> if l = [] \<or> (\<forall>c\<in>set l. isspace c) then None else Some (strip l))"
  by (auto simp: normalize_language_def strip_empty_iff split: option.splits)

text \<open>
  Claim C7. On a valid call that reaches the inference, the library's \<open>transcribe\<close> is
  invoked once, and the language it is given is \<open>None\<close> when the argument is \<open>None\<close>,
  empty or whitespace only, and the stripped argument otherwise: the trace shows this
  language, and the outcome of the call is what the library answers for exactly this
  language (its exception, or the result made of its segments and metadata), whatever the
  library is.
\<close>

theorem transcribe_normalizes_language:
  assumes "audio_path \<noteq> []" and "audio_path \<in> dom (files w)"
    and "1 \<le> beam_size" and "beam_size \<le> 10"
    and "ensure_model E (self, emit (Transcribe audio_path language beam_size vad_filter) w)
           = (Inr m, self1, w1)"
  shows "List.map_filter passed_language
           (new_events w (world_after (transcribe E audio_path language beam_size vad_filter (self, w))))
         = [case language of
              None \<Rightarrow> None
            | Some l \<Rightarrow> if l = [] \<or> (\<forall>c\<in>set l. isspace c) then None else Some (strip l)]
       \<and> outcome (transcribe E audio_path language beam_size vad_filter (self, w)) =
           (case model_transcribe E (w1\<lparr>ticks := Suc (ticks w1)\<rparr>) m audio_path
                   (case language of
                      None \<Rightarrow> None
                    | Some l \<Rightarrow> if l = [] \<or> (\<forall>c\<in>set l. isspace c) then None else Some (strip l))
                   beam_size vad_filter of
              Inl err \<Rightarrow> Inl err
            | Inr (segments, meta) \<Rightarrow>
                Inr \<lparr>res_text = strip (concat segments),
                     detected_language = info_language meta,
                     language_probability = info_language_probability meta,
                     seconds =
                       time_time E
                         (emit (Inference m audio_path
                            (case language of
                               None \<Rightarrow> None
                             | Some l \<Rightarrow>
                                 if l = [] \<or> (\<forall>c\<in>set l. isspace c) then None else Some (strip l))
                            beam_size vad_filter) (w1\<lparr>ticks := Suc (ticks w1)\<rparr>))
                       - time_time E w1\<rparr>)"
proof -
  from assms(2) have ex: "files w audio_path \<noteq> None" by (auto simp: dom_def)
  note valid = transcribe_valid [OF assms(1) ex assms(3,4,5)]
  from ensure_model_effect [OF assms(5)]
  have t1: "trace w1 = trace w @ [Transcribe audio_path language beam_size vad_filter, EnsureModel]
          \<or> trace w1 = trace w @ [Transcribe audio_path language beam_size vad_filter, EnsureModel,
               LoadModel (value_of (model_name self)) (device self) (compute_type self)]"
    by (auto simp: emit_def)
  have "List.map_filter passed_language
           (new_events w (world_after (transcribe E audio_path language beam_size vad_filter (self, w))))
        = [normalize_language language]"
    using t1
    by (auto simp: valid Let_def world_after_def
        new_events_def emit_def List.map_filter_simps split: sum.splits prod.splits)
  moreover have "outcome (transcribe E audio_path language beam_size vad_filter (self, w)) =
      (case model_transcribe E (w1\<lparr>ticks := Suc (ticks w1)\<rparr>) m audio_path
              (normalize_language language) beam_size vad_filter of
         Inl err \<Rightarrow> Inl err
       | Inr (segments, meta) \<Rightarrow>
           Inr \<lparr>res_text = strip (concat segments),
                detected_language = info_language meta,
                language_probability = info_language_probability meta,
                seconds =
                  time_time E
                    (emit (Inference m audio_path (normalize_language language)
                       beam_size vad_filter) (w1\<lparr>ticks := Suc (ticks w1)\<rparr>))
                  - time_time E w1\<rparr>)"
    by (simp add: valid Let_def outcome_def join_empty_def split: sum.splits prod.splits)
  ultimately show ?thesis unfolding normalize_language_spec by simp
qed

lemma echo_ensure_model:
  "ensure_model echo_env (demo_engine, w) =
     (Inr 7, demo_engine\<lparr>model := Some 7\<rparr>,
      emit (LoadModel (ustr ''tiny'') (ustr ''cuda'') (ustr ''float16'')) (emit EnsureModel w))"
  by (simp add: ensure_model_def demo_engine_fields echo_env_def demo_env_def Let_def)

theorem transcribe_normalizes_language_witness:
  "outcome (transcribe echo_env (ustr ''a.wav'') (Some (ustr '' en '')) 5 True
      (demo_engine, demo_world)) =
     Inr \<lparr>res_text = [], detected_language = Some (ustr ''en''), language_probability = None,
          seconds = 1\<rparr>
   \<and> outcome (transcribe echo_env (ustr ''a.wav'') (Some (ustr ''  '')) 5 True
      (demo_engine, demo_world)) =
     Inr \<lparr>res_text = [], detected_language = None, language_probability = None, seconds = 1\<rparr>
   \<and> List.map_filter passed_language (new_events demo_world (world_after
      (transcribe echo_env (ustr ''a.wav'') (Some (ustr '' en '')) 5 True (demo_engine, demo_world))))
     = [Some (ustr ''en'')]
   \<and> List.map_filter passed_language (new_events demo_world (world_after
      (transcribe echo_env (ustr ''a.wav'') (Some (ustr ''  '')) 5 True (demo_engine, demo_world))))
     = [None]"
proof -
  have p1: "ustr ''a.wav'' \<noteq> []" and p2: "ustr ''a.wav'' \<in> dom (files demo_world)"
    by (simp_all add: demo_world_def ustr_def)
  have b1: "(1::int) \<le> 5" and b2: "(5::int) \<le> 10" by simp_all
  have s: "strip (ustr '' en '') = ustr ''en''"
    by (simp add: strip_def ustr_def isspace_def)
  have sp: "\<forall>c\<in>set (ustr ''  ''). isspace c" and en: "\<not> (\<forall>c\<in>set (ustr '' en ''). isspace c)"
    and ne: "ustr '' en '' \<noteq> []"
    by (simp_all add: ustr_def isspace_def)
  have clock: "\<And>w. time_time echo_env w = real (ticks w)"
    and lib: "\<And>w m p l b v. model_transcribe echo_env w m p l b v =
         Inr ([], \<lparr>info_language = l, info_language_probability = None\<rparr>)"
    by (simp_all add: echo_env_def demo_env_def)
  have t: "strip [] = []" by (simp add: strip_def)
  note en_case = transcribe_normalizes_language
      [OF p1 p2 b1 b2 echo_ensure_model, where language = "Some (ustr '' en '')"]
  note sp_case = transcribe_normalizes_language
      [OF p1 p2 b1 b2 echo_ensure_model, where language = "Some (ustr ''  '')"]
  from en_case have "outcome (transcribe echo_env (ustr ''a.wav'') (Some (ustr '' en '')) 5 True
      (demo_engine, demo_world)) =
     Inr \<lparr>res_text = [], detected_language = Some (ustr ''en''), language_probability = None,
          seconds = 1\<rparr>"
    and "List.map_filter passed_language (new_events demo_world (world_after
      (transcribe echo_env (ustr ''a.wav'') (Some (ustr '' en '')) 5 True (demo_engine, demo_world))))
     = [Some (ustr ''en'')]"
    by (simp_all add: s en ne clock lib t emit_def demo_world_def)
  moreover from sp_case have "outcome (transcribe echo_env (ustr ''a.wav'') (Some (ustr ''  '')) 5 True
      (demo_engine, demo_world)) =
     Inr \<lparr>res_text = [], detected_language = None, language_probability = None, seconds = 1\<rparr>"
    and "List.map_filter passed_language (new_events demo_world (world_after
      (transcribe echo_env (ustr ''a.wav'') (Some (ustr ''  '')) 5 True (demo_engine, demo_world))))
     = [None]"
    by (simp_all add: sp clock lib t emit_def demo_world_def)
  ultimately show ?thesis by simp
qed

text \<open>
  Claim C8. On empty bytes \<open>transcribe_pcm16\<close> returns the zero result and changes
  nothing: the engine is as before (no initialization), and the world is as before, so no
  event occurred and no temporary file was created.
\<close>

theorem transcribe_pcm16_empty_bytes:
  "outcome (transcribe_pcm16 E [] sample_rate language beam_size vad_filter (self, w)) =
     Inr \<lparr>res_text = [], detected_language = None, language_probability = None, seconds = 0\<rparr>
   \<and> engine_after (transcribe_pcm16 E [] sample_rate language beam_size vad_filter (self, w)) = self
   \<and> world_after (transcribe_pcm16 E [] sample_rate language beam_size vad_filter (self, w)) = w
   \<and> new_events w (world_after
        (transcribe_pcm16 E [] sample_rate language beam_size vad_filter (self, w))) = []
   \<and> List.map_filter temp_created (new_events w (world_after
        (transcribe_pcm16 E [] sample_rate language beam_size vad_filter (self, w)))) = []"
  by (simp add: transcribe_pcm16_def outcome_def engine_after_def world_after_def new_events_def
      List.map_filter_simps)

lemma engine_events_hide:
  "list_all engine_event evs \<Longrightarrow>
     List.map_filter temp_created evs = [] \<and> List.map_filter transcribe_path evs = []"
proof (induction evs)
  case Nil
  show ?case by (simp add: List.map_filter_simps)
next
  case (Cons ev evs)
  then show ?case by (cases ev) (simp_all add: List.map_filter_simps)
qed

lemma map_filter_append:
  "List.map_filter f (xs @ ys) = List.map_filter f xs @ List.map_filter f ys"
  by (simp add: List.map_filter_def)

lemma length_wave_header: "length (wave_header nchannels sampwidth framerate datalength) = 44"
  by (simp add: wave_header_def ascii_def le16_def le32_def)

lemma wave_write_rejects:
  assumes "sample_rate \<le> 0 \<or> 2147483648 \<le> sample_rate \<or> 4294967296 \<le> 36 + length frames"
  shows "wave_write 1 2 sample_rate frames = Inl WaveError
       \<or> wave_write 1 2 sample_rate frames = Inl StructError"
  using assms by (auto simp: wave_write_def)

lemma wave_write_accepts:
  assumes "0 < sample_rate" and "sample_rate < 2147483648"
    and "36 + length frames < 4294967296"
  shows "wave_write 1 2 sample_rate frames =
           Inr (wave_header 1 2 (nat sample_rate) (length frames) @ frames)"
  using assms by (simp add: wave_write_def)

lemma drop_remove_error:
  "(case p of (Inl err, w') \<Rightarrow> w' | (Inr u, w') \<Rightarrow> w') = snd p"
  by (cases p) (simp split: sum.splits)

text \<open>One sample of silence at 16 kHz: the bytes the \<open>wave\<close> module writes.\<close>

lemma demo_container:
  "wave_write 1 2 16000 [0, 0] =
     Inr [82, 73, 70, 70, 38, 0, 0, 0, 87, 65, 86, 69, 102, 109, 116, 32, 16, 0, 0, 0, 1, 0, 1, 0,
          128, 62, 0, 0, 0, 125, 0, 0, 2, 0, 16, 0, 100, 97, 116, 97, 2, 0, 0, 0, 0, 0]"
  by (simp add: wave_write_def wave_header_def ascii_def le16_def le32_def)

text \<open>
  Claim C4 says that every non-empty input leads to exactly one temporary file and that
  the file is gone after the call on every exit path. At sample rate 0 the \<open>wave\<close>
  writer raises: no temporary file is created and \<open>transcribe\<close> is not called. And when
  the operating system refuses the removal, the \<open>OSError\<close> is dropped and the file is
  still there after the call, here after the \<open>ValueError\<close> of beam size 0.
\<close>

theorem transcribe_pcm16_temp_file_counterexample:
  "transcribe_pcm16 demo_env [0, 0] 0 None 5 True (demo_engine, demo_world) =
     (Inl WaveError, demo_engine, demo_world)
   \<and> List.map_filter temp_created (new_events demo_world (world_after
        (transcribe_pcm16 demo_env [0, 0] 0 None 5 True (demo_engine, demo_world)))) = []
   \<and> List.map_filter transcribe_path (new_events demo_world (world_after
        (transcribe_pcm16 demo_env [0, 0] 0 None 5 True (demo_engine, demo_world)))) = []
   \<and> outcome (transcribe_pcm16 stubborn_env [0, 0] 16000 None 0 True (demo_engine, demo_world)) =
       Inl (ValueError ''beam_size must be between 1 and 10'')
   \<and> files (world_after
        (transcribe_pcm16 stubborn_env [0, 0] 16000 None 0 True (demo_engine, demo_world)))
        (ustr ''/tmp/tmpa1.wav'') \<noteq> None"
proof -
  have rate0: "transcribe_pcm16 demo_env [0, 0] 0 None 5 True (demo_engine, demo_world) =
      (Inl WaveError, demo_engine, demo_world)"
    by (simp add: transcribe_pcm16_def wave_write_def)
  obtain buf where ok: "wave_write 1 2 16000 [0, 0] = Inr buf"
    using demo_container by simp
  have kept: "transcribe_pcm16 stubborn_env [0, 0] 16000 None 0 True (demo_engine, demo_world) =
      (Inl (ValueError ''beam_size must be between 1 and 10''), demo_engine,
       \<lparr>files = (files demo_world)(ustr ''/tmp/tmpa1.wav'' \<mapsto> buf),
        ticks = 0,
        trace = [TempCreated (ustr ''/tmp/tmpa1.wav'') buf,
                 Transcribe (ustr ''/tmp/tmpa1.wav'') None 0 True,
                 Removed (ustr ''/tmp/tmpa1.wav'')]\<rparr>)"
    by (simp add: transcribe_pcm16_def ok named_temporary_file_def stubborn_env_def demo_env_def
        Let_def transcribe_def path_exists_def emit_def os_remove_def demo_world_def ustr_def
        del: One_nat_def)
  show ?thesis
    unfolding rate0 kept
    by (simp add: world_after_def outcome_def new_events_def List.map_filter_simps
        demo_world_def)
qed

text \<open>
  Claim C4, amended. On non-empty bytes: when the \<open>wave\<close> writer rejects the input (a
  sample rate that is not positive or not below \<open>2^31\<close>, or more bytes than the length
  field holds), its exception goes to the caller and nothing else happens: no temporary
  file, no call of \<open>transcribe\<close>. When it accepts and the temporary file is created and
  written, exactly one temporary file has been created, named by \<open>tempfile\<close> with the
  suffix \<open>.wav\<close> and holding the 44-byte header for one channel, two bytes per sample and
  the given sample rate followed by the bytes; \<open>transcribe\<close> is called once, on that
  path, in a world where the file exists; the outcome is the outcome of that call, a
  result or an exception alike; the last event is the call of \<open>os.remove\<close> on the path.
  Unless the operating system refuses that removal the path does not exist afterwards and
  every other file is as before; if it refuses, the file stays and the outcome is the same.
  An out-of-range beam size is one such exit: the \<open>ValueError\<close> goes on to the caller.
\<close>

theorem transcribe_pcm16_temp_file_lifecycle:
  assumes "pcm16le \<noteq> []"
  shows
    "(sample_rate \<le> 0 \<or> 2147483648 \<le> sample_rate \<or> 4294967296 \<le> 36 + length pcm16le \<longrightarrow>
        (\<exists>err. (err = WaveError \<or> err = StructError)
           \<and> transcribe_pcm16 E pcm16le sample_rate language beam_size vad_filter (self, w)
               = (Inl err, self, w)))
   \<and> (0 < sample_rate \<and> sample_rate < 2147483648 \<and> 36 + length pcm16le < 4294967296
       \<and> temp_verdict E w (temp_stem E w @ ustr ''.wav'')
            (wave_header 1 2 (nat sample_rate) (length pcm16le) @ pcm16le) = Written \<longrightarrow>
        (let tmp = temp_stem E w @ ustr ''.wav'';
             buf = wave_header 1 2 (nat sample_rate) (length pcm16le) @ pcm16le;
             w1 = emit (TempCreated tmp buf) (w\<lparr>files := (files w)(tmp \<mapsto> buf)\<rparr>);
             w2 = world_after (transcribe E tmp language beam_size vad_filter (self, w1));
             res = transcribe_pcm16 E pcm16le sample_rate language beam_size vad_filter (self, w);
             evs = new_events w (world_after res)
         in wave_write 1 2 sample_rate pcm16le = Inr buf
          \<and> length buf = 44 + length pcm16le
          \<and> drop 44 buf = pcm16le
          \<and> List.map_filter temp_created evs = [(tmp, buf)]
          \<and> List.map_filter transcribe_path evs = [tmp]
          \<and> take 2 evs = [TempCreated tmp buf, Transcribe tmp language beam_size vad_filter]
          \<and> last evs = Removed tmp
          \<and> files w1 tmp = Some buf
          \<and> outcome res = outcome (transcribe E tmp language beam_size vad_filter (self, w1))
          \<and> engine_after res =
              engine_after (transcribe E tmp language beam_size vad_filter (self, w1))
          \<and> (\<not> remove_refused E w2 tmp \<longrightarrow>
                tmp \<notin> dom (files (world_after res))
              \<and> files (world_after res) = (files w)(tmp := None))
          \<and> (remove_refused E w2 tmp \<longrightarrow> files (world_after res) = (files w)(tmp \<mapsto> buf))
          \<and> (beam_size < 1 \<or> 10 < beam_size \<longrightarrow>
               outcome res = Inl (ValueError ''beam_size must be between 1 and 10''))))"
proof (intro conjI impI)
  assume "sample_rate \<le> 0 \<or> 2147483648 \<le> sample_rate \<or> 4294967296 \<le> 36 + length pcm16le"
  from wave_write_rejects [OF this] assms
  show "\<exists>err. (err = WaveError \<or> err = StructError)
           \<and> transcribe_pcm16 E pcm16le sample_rate language beam_size vad_filter (self, w)
               = (Inl err, self, w)"
    by (auto simp: transcribe_pcm16_def)
next
  define tmp where "tmp = temp_stem E w @ ustr ''.wav''"
  define buf where "buf = wave_header 1 2 (nat sample_rate) (length pcm16le) @ pcm16le"
  define w1 where "w1 = emit (TempCreated tmp buf) (w\<lparr>files := (files w)(tmp \<mapsto> buf)\<rparr>)"
  assume good: "0 < sample_rate \<and> sample_rate < 2147483648 \<and> 36 + length pcm16le < 4294967296
       \<and> temp_verdict E w (temp_stem E w @ ustr ''.wav'')
            (wave_header 1 2 (nat sample_rate) (length pcm16le) @ pcm16le) = Written"
  then have ww: "wave_write 1 2 sample_rate pcm16le = Inr buf"
    unfolding buf_def by (intro wave_write_accepts) simp_all
  from good have verdict: "temp_verdict E w tmp buf = Written"
    by (simp add: tmp_def buf_def)
  have ntf: "named_temporary_file E (ustr ''.wav'') buf w = (Inr tmp, w1)"
    using verdict by (simp add: named_temporary_file_def Let_def tmp_def [symmetric] w1_def)
  obtain r self1 w2 where tr: "transcribe E tmp language beam_size vad_filter (self, w1) = (r, self1, w2)"
    by (metis prod_cases3)
  from transcribe_effect [OF tr] obtain evs where
    f2: "files w2 = files w1" and
    t2: "trace w2 = trace w1 @ Transcribe tmp language beam_size vad_filter # evs" and
    ee: "list_all engine_event evs"
    by blast
  have f1: "files w1 = (files w)(tmp \<mapsto> buf)" and t1: "trace w1 = trace w @ [TempCreated tmp buf]"
    by (simp_all add: w1_def emit_def)
  define w3 where "w3 = snd (os_remove E tmp w2)"
  have res: "transcribe_pcm16 E pcm16le sample_rate language beam_size vad_filter (self, w)
               = (r, self1, w3)"
    using assms
    by (simp add: transcribe_pcm16_def ww ntf tr w3_def drop_remove_error case_prod_beta
        del: One_nat_def)
  have t3: "trace w3 = trace w2 @ [Removed tmp]"
    by (simp add: w3_def os_remove_def Let_def emit_def)
  have gone: "files w3 = (files w)(tmp := None)" if "\<not> remove_refused E w2 tmp"
    using that by (simp add: w3_def os_remove_def Let_def emit_def path_exists_def f2 f1)
  have stays: "files w3 = (files w)(tmp \<mapsto> buf)" if "remove_refused E w2 tmp"
    using that by (simp add: w3_def os_remove_def Let_def emit_def f2 f1)
  have evs: "new_events w w3 =
      [TempCreated tmp buf, Transcribe tmp language beam_size vad_filter] @ evs @ [Removed tmp]"
    by (simp add: new_events_def t3 t2 t1)
  have tmp_ne: "tmp \<noteq> []" by (simp add: tmp_def ustr_def)
  have beam: "beam_size < 1 \<or> 10 < beam_size \<Longrightarrow>
      r = Inl (ValueError ''beam_size must be between 1 and 10'')"
    using tr tmp_ne f1
    by (auto simp: transcribe_def Let_def path_exists_def emit_def)
  have "List.map_filter temp_created (new_events w w3) = [(tmp, buf)]"
    and "List.map_filter transcribe_path (new_events w w3) = [tmp]"
    and "take 2 (new_events w w3) = [TempCreated tmp buf, Transcribe tmp language beam_size vad_filter]"
    and "last (new_events w w3) = Removed tmp"
    using engine_events_hide [OF ee]
    by (simp_all add: evs map_filter_append List.map_filter_simps)
  moreover have "files w1 tmp = Some buf" by (simp add: f1)
  moreover have "length buf = 44 + length pcm16le" and "drop 44 buf = pcm16le"
    by (simp_all add: buf_def length_wave_header)
  moreover have "\<not> remove_refused E w2 tmp \<longrightarrow>
      tmp \<notin> dom (files w3) \<and> files w3 = (files w)(tmp := None)"
    using gone by simp
  moreover have "remove_refused E w2 tmp \<longrightarrow> files w3 = (files w)(tmp \<mapsto> buf)"
    using stays by simp
  ultimately show "let tmp = temp_stem E w @ ustr ''.wav'';
             buf = wave_header 1 2 (nat sample_rate) (length pcm16le) @ pcm16le;
             w1 = emit (TempCreated tmp buf) (w\<lparr>files := (files w)(tmp \<mapsto> buf)\<rparr>);
             w2 = world_after (transcribe E tmp language beam_size vad_filter (self, w1));
             res = transcribe_pcm16 E pcm16le sample_rate language beam_size vad_filter (self, w);
             evs = new_events w (world_after res)
         in wave_write 1 2 sample_rate pcm16le = Inr buf
          \<and> length buf = 44 + length pcm16le
          \<and> drop 44 buf = pcm16le
          \<and> List.map_filter temp_created evs = [(tmp, buf)]
          \<and> List.map_filter transcribe_path evs = [tmp]
          \<and> take 2 evs = [TempCreated tmp buf, Transcribe tmp language beam_size vad_filter]
          \<and> last evs = Removed tmp
          \<and> files w1 tmp = Some buf
          \<and> outcome res = outcome (transcribe E tmp language beam_size vad_filter (self, w1))
          \<and> engine_after res =
              engine_after (transcribe E tmp language beam_size vad_filter (self, w1))
          \<and> (\<not> remove_refused E w2 tmp \<longrightarrow>
                tmp \<notin> dom (files (world_after res))
              \<and> files (world_after res) = (files w)(tmp := None))
          \<and> (remove_refused E w2 tmp \<longrightarrow> files (world_after res) = (files w)(tmp \<mapsto> buf))
          \<and> (beam_size < 1 \<or> 10 < beam_size \<longrightarrow>
               outcome res = Inl (ValueError ''beam_size must be between 1 and 10''))"
    using beam ww
    unfolding Let_def tmp_def [symmetric] buf_def [symmetric] w1_def [symmetric]
    by (simp add: res tr outcome_def engine_after_def world_after_def)
qed

theorem transcribe_pcm16_temp_file_lifecycle_witness:
  "(\<exists>err. transcribe_pcm16 demo_env [0, 0] 0 None 5 True (demo_engine, demo_world) =
        (Inl err, demo_engine, demo_world))
   \<and> List.map_filter temp_created (new_events demo_world (world_after
        (transcribe_pcm16 demo_env [0, 0] 16000 None 5 True (demo_engine, demo_world))))
     = [(ustr ''/tmp/tmpa1.wav'',
         [82, 73, 70, 70, 38, 0, 0, 0, 87, 65, 86, 69, 102, 109, 116, 32, 16, 0, 0, 0, 1, 0, 1, 0,
          128, 62, 0, 0, 0, 125, 0, 0, 2, 0, 16, 0, 100, 97, 116, 97, 2, 0, 0, 0, 0, 0])]
   \<and> ustr ''/tmp/tmpa1.wav'' \<notin> dom (files (world_after
        (transcribe_pcm16 demo_env [0, 0] 16000 None 5 True (demo_engine, demo_world))))
   \<and> outcome (transcribe_pcm16 stubborn_env [0, 0] 16000 None 0 True (demo_engine, demo_world))
     = Inl (ValueError ''beam_size must be between 1 and 10'')
   \<and> ustr ''/tmp/tmpa1.wav'' \<in> dom (files (world_after
        (transcribe_pcm16 stubborn_env [0, 0] 16000 None 0 True (demo_engine, demo_world))))"
proof -
  let ?bytes = "[82, 73, 70, 70, 38, 0, 0, 0, 87, 65, 86, 69, 102, 109, 116, 32, 16, 0, 0, 0, 1, 0,
      1, 0, 128, 62, 0, 0, 0, 125, 0, 0, 2, 0, 16, 0, 100, 97, 116, 97, 2, 0, 0, 0, 0, 0] :: bytes"
  have ne: "[0, 0] \<noteq> ([] :: bytes)" by simp
  have hdr: "wave_header 1 2 (nat 16000) (length [0, 0 :: 8 word]) @ [0, 0] = ?bytes"
    by (simp add: wave_header_def ascii_def le16_def le32_def)
  have stem_d: "temp_stem demo_env demo_world @ ustr ''.wav'' = ustr ''/tmp/tmpa1.wav''"
    and stem_s: "temp_stem stubborn_env demo_world @ ustr ''.wav'' = ustr ''/tmp/tmpa1.wav''"
    by (simp_all add: stubborn_env_def demo_env_def ustr_def)
  have rejected: "(0::int) \<le> 0 \<or> 2147483648 \<le> (0::int)
      \<or> 4294967296 \<le> 36 + length [0, 0 :: 8 word]"
    by simp
  have accepted_d: "0 < (16000::int) \<and> (16000::int) < 2147483648
      \<and> 36 + length [0, 0 :: 8 word] < 4294967296
      \<and> temp_verdict demo_env demo_world (ustr ''/tmp/tmpa1.wav'') ?bytes = Written"
    and accepted_s: "0 < (16000::int) \<and> (16000::int) < 2147483648
      \<and> 36 + length [0, 0 :: 8 word] < 4294967296
      \<and> temp_verdict stubborn_env demo_world (ustr ''/tmp/tmpa1.wav'') ?bytes = Written"
    by (simp_all add: stubborn_env_def demo_env_def)
  have willing: "\<And>w p. \<not> remove_refused demo_env w p"
    and refusing: "\<And>w p. remove_refused stubborn_env w p"
    by (simp_all add: stubborn_env_def demo_env_def)
  note at_zero = transcribe_pcm16_temp_file_lifecycle
      [OF ne, where E = demo_env and sample_rate = 0 and w = demo_world and language = None
        and beam_size = 5 and vad_filter = True and self = demo_engine, THEN conjunct1]
  note at_good = transcribe_pcm16_temp_file_lifecycle
      [OF ne, where E = demo_env and sample_rate = 16000 and w = demo_world and language = None
        and beam_size = 5 and vad_filter = True and self = demo_engine, THEN conjunct2,
        unfolded Let_def hdr stem_d]
  note at_stubborn = transcribe_pcm16_temp_file_lifecycle
      [OF ne, where E = stubborn_env and sample_rate = 16000 and w = demo_world
        and language = None and beam_size = 0 and vad_filter = True and self = demo_engine,
        THEN conjunct2, unfolded Let_def hdr stem_s]
  from at_zero rejected
  have a: "\<exists>err. transcribe_pcm16 demo_env [0, 0] 0 None 5 True (demo_engine, demo_world) =
        (Inl err, demo_engine, demo_world)"
    by blast
  from at_good accepted_d willing
  have b: "List.map_filter temp_created (new_events demo_world (world_after
        (transcribe_pcm16 demo_env [0, 0] 16000 None 5 True (demo_engine, demo_world))))
       = [(ustr ''/tmp/tmpa1.wav'', ?bytes)]"
    and c: "ustr ''/tmp/tmpa1.wav'' \<notin> dom (files (world_after
        (transcribe_pcm16 demo_env [0, 0] 16000 None 5 True (demo_engine, demo_world))))"
    by blast+
  have low: "(0::int) < 1 \<or> 10 < (0::int)" by simp
  from at_stubborn accepted_s refusing low
  have d: "outcome (transcribe_pcm16 stubborn_env [0, 0] 16000 None 0 True (demo_engine, demo_world))
       = Inl (ValueError ''beam_size must be between 1 and 10'')"
    and "files (world_after
        (transcribe_pcm16 stubborn_env [0, 0] 16000 None 0 True (demo_engine, demo_world)))
       = (files demo_world)(ustr ''/tmp/tmpa1.wav'' \<mapsto> ?bytes)"
    by blast+
  then have e: "ustr ''/tmp/tmpa1.wav'' \<in> dom (files (world_after
        (transcribe_pcm16 stubborn_env [0, 0] 16000 None 0 True (demo_engine, demo_world))))"
    by simp
  from a b c d e show ?thesis by blast
qed

lemma model_choices_eval:
  "model_choices = [ustr ''tiny'', ustr ''base'', ustr ''small'', ustr ''medium'', ustr ''large-v3'']"
  by (simp add: model_choices_def members_def)

lemma WhisperModelName_call_value: "WhisperModelName_call (value_of m) = Inr m"
  by (cases m) (simp_all add: WhisperModelName_call_def members_def ustr_def)

text \<open>
  Claim C6 names the fifth identifier \<open>large\<close>. The enumeration has \<open>large-v3\<close>:
  that string is accepted although it is outside the claimed set, and \<open>large\<close> is
  rejected.
\<close>

theorem registry_large_counterexample:
  "model_choices \<noteq> [ustr ''tiny'', ustr ''base'', ustr ''small'', ustr ''medium'', ustr ''large'']
   \<and> ustr ''large-v3'' \<notin> set [ustr ''tiny'', ustr ''base'', ustr ''small'', ustr ''medium'', ustr ''large'']
   \<and> WhisperModelName_call (ustr ''large-v3'') = Inr large_v3
   \<and> WhisperModelName_call (ustr ''large'') = Inl (ValueError ''not a valid WhisperModelName'')"
  by (simp add: model_choices_def members_def WhisperModelName_call_def ustr_def)

text \<open>
  Claim C6, amended. The registry enumerates exactly \<open>tiny\<close>, \<open>base\<close>, \<open>small\<close>,
  \<open>medium\<close>, \<open>large-v3\<close>, in this order and without repetition; a raw string in
  this list validates to the member with that value, and every other raw string fails with
  the \<open>ValueError\<close>.
\<close>

theorem registry_members_and_validation:
  "model_choices = [ustr ''tiny'', ustr ''base'', ustr ''small'', ustr ''medium'', ustr ''large-v3'']
   \<and> distinct model_choices
   \<and> (raw \<in> set model_choices \<longrightarrow> (\<exists>m. WhisperModelName_call raw = Inr m \<and> value_of m = raw))
   \<and> (raw \<notin> set model_choices \<longrightarrow>
        WhisperModelName_call raw = Inl (ValueError ''not a valid WhisperModelName''))"
proof -
  have d: "distinct model_choices"
    by (simp add: model_choices_def members_def ustr_def)
  have inside: "\<exists>m. WhisperModelName_call raw = Inr m \<and> value_of m = raw"
    if "raw \<in> set model_choices"
  proof -
    from that obtain m where "raw = value_of m" by (auto simp: model_choices_def)
    then show ?thesis by (auto simp: WhisperModelName_call_value)
  qed
  have outside: "WhisperModelName_call raw = Inl (ValueError ''not a valid WhisperModelName'')"
    if "raw \<notin> set model_choices"
  proof -
    from that have "find (\<lambda>m. value_of m = raw) members = None"
      by (auto simp: find_None_iff model_choices_def)
    then show ?thesis by (simp add: WhisperModelName_call_def)
  qed
  from d inside outside show ?thesis by (simp add: model_choices_eval)
qed

theorem registry_members_and_validation_witness:
  "WhisperModelName_call (ustr ''large-v3'') = Inr large_v3
   \<and> WhisperModelName_call (ustr ''huge'') = Inl (ValueError ''not a valid WhisperModelName'')"
proof -
  have a: "ustr ''large-v3'' \<in> set model_choices" and b: "ustr ''huge'' \<notin> set model_choices"
    by (simp_all add: model_choices_def members_def ustr_def)
  from registry_members_and_validation [of "ustr ''large-v3''"] a
  obtain m where c: "WhisperModelName_call (ustr ''large-v3'') = Inr m"
    and v: "value_of m = ustr ''large-v3''"
    by blast
  from v have "m = large_v3" by (cases m) (simp_all add: ustr_def)
  with c have "WhisperModelName_call (ustr ''large-v3'') = Inr large_v3" by simp
  moreover from registry_members_and_validation [of "ustr ''huge''"] b
  have "WhisperModelName_call (ustr ''huge'') = Inl (ValueError ''not a valid WhisperModelName'')"
    by blast
  ultimately show ?thesis by simp
qed

text \<open>
  Claim C9. \<open>get_engine m\<close> returns the reference the cache holds for \<open>m\<close> and leaves
  cache and store alone when there is one; otherwise it constructs an engine for \<open>m\<close>
  with no model loaded, appends it to the store, enters its reference under \<open>m\<close> (other
  entries and objects unchanged) and returns that reference. In both cases a second
  \<open>get_engine m\<close> returns the same reference and changes nothing.
\<close>

theorem get_engine_returns_cached_or_new:
  "(case ENGINES s m of
      Some ref \<Rightarrow> get_engine m s = (Inr ref, s)
    | None \<Rightarrow>
        get_engine m s =
          (Inr (length (store s)),
           s\<lparr>store := store s @ [WhisperSTT_init m None None],
             ENGINES := (ENGINES s)(m \<mapsto> length (store s))\<rparr>)
        \<and> model (WhisperSTT_init m None None) = None
        \<and> model_name (WhisperSTT_init m None None) = m)
   \<and> (\<exists>ref s1. get_engine m s = (Inr ref, s1)
        \<and> ENGINES s1 m = Some ref
        \<and> get_engine m s1 = (Inr ref, s1)
        \<and> (ENGINES s m = None \<longrightarrow> ref < length (store s1)
              \<and> store s1 ! ref = WhisperSTT_init m None None
              \<and> take (length (store s)) (store s1) = store s
              \<and> (\<forall>k. k \<noteq> m \<longrightarrow> ENGINES s1 k = ENGINES s k)))"
proof (cases "ENGINES s m")
  case None
  then show ?thesis
    by (simp add: get_engine_def Let_def WhisperSTT_init_def default_device_config_def)
next
  case (Some ref)
  then show ?thesis
    by (simp add: get_engine_def Let_def)
qed

theorem get_engine_returns_cached_or_new_witness:
  "get_engine small demo_server =
     (Inr 0, \<lparr>store = [WhisperSTT_init small None None], ENGINES = [small \<mapsto> 0]\<rparr>)
   \<and> get_engine small (snd (get_engine small demo_server)) =
     (Inr 0, \<lparr>store = [WhisperSTT_init small None None], ENGINES = [small \<mapsto> 0]\<rparr>)"
proof -
  have e: "ENGINES demo_server small = None" by (simp add: demo_server_def)
  from get_engine_returns_cached_or_new [where s = demo_server and m = small] e
  have 1: "get_engine small demo_server =
     (Inr 0, \<lparr>store = [WhisperSTT_init small None None], ENGINES = [small \<mapsto> 0]\<rparr>)"
    by (simp add: demo_server_def)
  from get_engine_returns_cached_or_new [where s = demo_server and m = small] 1
  have "get_engine small \<lparr>store = [WhisperSTT_init small None None], ENGINES = [small \<mapsto> 0]\<rparr> =
     (Inr 0, \<lparr>store = [WhisperSTT_init small None None], ENGINES = [small \<mapsto> 0]\<rparr>)"
    by auto
  with 1 show ?thesis by simp
qed

section \<open>Concurrent first use\<close>



lemma step_index: "step t ok s = Some s' \<Longrightarrow> t < length (pcs s)"
  by (simp add: step_def split: if_splits)

lemma step_pcs: "step t ok s = Some s' \<Longrightarrow> pcs s' = (pcs s)[t := pcs s' ! t]"
  by (cases "pcs s ! t") (auto simp: step_def goto_def split: if_splits)

lemma step_length: "step t ok s = Some s' \<Longrightarrow> length (pcs s') = length (pcs s)"
  by (cases "pcs s ! t") (auto simp: step_def goto_def split: if_splits)

lemma step_lock_effect:
  assumes "step t ok s = Some s'"
  shows "(in_with (pcs s' ! t) = in_with (pcs s ! t) \<and> s_lock s' = s_lock s)
       \<or> (\<not> in_with (pcs s ! t) \<and> s_lock s = None \<and> in_with (pcs s' ! t) \<and> s_lock s' = Some t)
       \<or> (in_with (pcs s ! t) \<and> \<not> in_with (pcs s' ! t) \<and> s_lock s' = None)"
  using assms
  by (cases "pcs s ! t") (auto simp: step_def goto_def split: if_splits)

lemma fresh_single_flight: "single_flight (fresh n)"
  by (simp add: single_flight_def lock_inv_def model_inv_def count_inv_def fresh_def)

lemma step_lock_inv:
  assumes inv: "lock_inv s" and st: "step t ok s = Some s'"
  shows "lock_inv s'"
proof -
  note t = step_index [OF st] and len = step_length [OF st]
  have other: "pcs s' ! k = pcs s ! k" if "k \<noteq> t" for k
    using step_pcs [OF st] that by (metis nth_list_update_neq)
  from inv have in_holds: "\<And>k. k < length (pcs s) \<Longrightarrow> in_with (pcs s ! k) \<Longrightarrow> s_lock s = Some k"
    and holds_in: "\<And>k. s_lock s = Some k \<Longrightarrow> k < length (pcs s) \<and> in_with (pcs s ! k)"
    unfolding lock_inv_def by blast+
  from step_lock_effect [OF st] show ?thesis
  proof (elim disjE conjE)
    assume same: "in_with (pcs s' ! t) = in_with (pcs s ! t)" "s_lock s' = s_lock s"
    have eq: "in_with (pcs s' ! k) = in_with (pcs s ! k)" for k
      using same(1) other by (cases "k = t") simp_all
    show ?thesis
      unfolding lock_inv_def len eq same(2) using inv unfolding lock_inv_def .
  next
    assume acquire: "\<not> in_with (pcs s ! t)" "s_lock s = None" "in_with (pcs s' ! t)"
      "s_lock s' = Some t"
    have none: "\<not> in_with (pcs s ! k)" if "k < length (pcs s)" for k
      using in_holds [OF that] acquire(2) by auto
    have only: "k = t" if "k < length (pcs s)" "in_with (pcs s' ! k)" for k
    proof (rule ccontr)
      assume "k \<noteq> t"
      with other that(2) have "in_with (pcs s ! k)" by simp
      with none [OF that(1)] show False by simp
    qed
    show ?thesis
      unfolding lock_inv_def len acquire(4)
    proof (intro conjI allI impI)
      fix k assume "k < length (pcs s)" "in_with (pcs s' ! k)"
      then show "Some t = Some k" using only by simp
    next
      fix k assume "Some t = Some k"
      then have "k = t" by simp
      with t acquire(3) show "k < length (pcs s)" "in_with (pcs s' ! k)" by simp_all
    qed
  next
    assume release: "in_with (pcs s ! t)" "\<not> in_with (pcs s' ! t)" "s_lock s' = None"
    from in_holds [OF t release(1)] have holder: "s_lock s = Some t" .
    have out: "\<not> in_with (pcs s' ! k)" if "k < length (pcs s)" for k
    proof (cases "k = t")
      case True
      with release(2) show ?thesis by simp
    next
      case False
      show ?thesis
      proof
        assume "in_with (pcs s' ! k)"
        with other [OF False] have "in_with (pcs s ! k)" by simp
        from in_holds [OF that this] holder False show False by simp
      qed
    qed
    show ?thesis
      unfolding lock_inv_def len release(3)
    proof (intro conjI allI impI)
      fix k assume "k < length (pcs s)" "in_with (pcs s' ! k)"
      with out show "None = Some k" by simp
    next
      fix k :: nat assume "None = Some k"
      then show "k < length (pcs s)" "in_with (pcs s' ! k)" by simp_all
    qed
  qed
qed

lemma sees_outside: "\<not> in_with p \<Longrightarrow> sees None p \<Longrightarrow> sees m p"
  by (cases p) simp_all

lemma step_model_effect:
  assumes "step t ok s = Some s'" and "sees (s_model s) (pcs s ! t)"
  shows "(s_model s' = s_model s \<and> sees (s_model s') (pcs s' ! t))
       \<or> (in_with (pcs s ! t) \<and> s_model s = None \<and> sees (s_model s') (pcs s' ! t))"
  using assms
  by (cases "pcs s ! t") (auto simp: step_def goto_def split: if_splits)

lemma step_model_inv:
  assumes lk: "lock_inv s" and inv: "model_inv s" and st: "step t ok s = Some s'"
  shows "model_inv s'"
proof -
  note t = step_index [OF st] and len = step_length [OF st]
  have other: "pcs s' ! k = pcs s ! k" if "k \<noteq> t" for k
    using step_pcs [OF st] that by (metis nth_list_update_neq)
  from inv have ok: "\<And>k. k < length (pcs s) \<Longrightarrow> sees (s_model s) (pcs s ! k)"
    unfolding model_inv_def by blast
  from lk have in_holds: "\<And>k. k < length (pcs s) \<Longrightarrow> in_with (pcs s ! k) \<Longrightarrow> s_lock s = Some k"
    unfolding lock_inv_def by blast
  from step_model_effect [OF st ok [OF t]] show ?thesis
  proof (elim disjE conjE)
    assume same: "s_model s' = s_model s" and new: "sees (s_model s') (pcs s' ! t)"
    show ?thesis
      unfolding model_inv_def len
    proof (intro allI impI)
      fix k assume k: "k < length (pcs s)"
      show "sees (s_model s') (pcs s' ! k)"
      proof (cases "k = t")
        case True
        with new show ?thesis by simp
      next
        case False
        with other ok [OF k] same show ?thesis by simp
      qed
    qed
  next
    assume holder: "in_with (pcs s ! t)" and none: "s_model s = None"
      and new: "sees (s_model s') (pcs s' ! t)"
    from in_holds [OF t holder] have lock: "s_lock s = Some t" .
    show ?thesis
      unfolding model_inv_def len
    proof (intro allI impI)
      fix k assume k: "k < length (pcs s)"
      show "sees (s_model s') (pcs s' ! k)"
      proof (cases "k = t")
        case True
        with new show ?thesis by simp
      next
        case False
        have "\<not> in_with (pcs s ! k)"
        proof
          assume "in_with (pcs s ! k)"
          from in_holds [OF k this] lock False show False by simp
        qed
        moreover from ok [OF k] none have "sees None (pcs s ! k)" by simp
        ultimately have "sees (s_model s') (pcs s ! k)" by (rule sees_outside)
        with other [OF False] show ?thesis by simp
      qed
    qed
  qed
qed

lemma step_created_effect:
  assumes "step t ok s = Some s'"
  shows "(created s' = created s \<and> s_model s' = s_model s
            \<and> \<not> storing (pcs s ! t) \<and> \<not> storing (pcs s' ! t))
       \<or> (created s' = created s \<and> storing (pcs s ! t) \<and> s_model s' \<noteq> None)
       \<or> (created s' = Suc (created s) \<and> pcs s ! t = L65_call \<and> storing (pcs s' ! t))"
  using assms
  by (cases "pcs s ! t") (auto simp: step_def goto_def split: if_splits)

lemma step_counters_effect:
  assumes "step t ok s = Some s'"
  shows "(attempts s' = attempts s \<and> created s' = created s \<and> failed s' = failed s
            \<and> (raising (pcs s ! t) \<longrightarrow> raising (pcs s' ! t)))
       \<or> (attempts s' = Suc (attempts s) \<and> created s' = Suc (created s) \<and> failed s' = failed s
            \<and> \<not> raising (pcs s ! t))
       \<or> (attempts s' = Suc (attempts s) \<and> created s' = created s \<and> failed s' = Suc (failed s)
            \<and> raising (pcs s' ! t))"
  using assms
  by (cases "pcs s ! t") (auto simp: step_def goto_def split: if_splits)

lemma storing_in_with: "storing p \<Longrightarrow> in_with p"
  by (cases p) simp_all

lemma step_count_inv:
  assumes lk: "lock_inv s" and mi: "model_inv s" and inv: "count_inv s"
    and st: "step t ok s = Some s'"
  shows "count_inv s'"
proof -
  note t = step_index [OF st] and len = step_length [OF st]
  have other: "pcs s' ! k = pcs s ! k" if "k \<noteq> t" for k
    using step_pcs [OF st] that by (metis nth_list_update_neq)
  from lk have in_holds: "\<And>k. k < length (pcs s) \<Longrightarrow> in_with (pcs s ! k) \<Longrightarrow> s_lock s = Some k"
    unfolding lock_inv_def by blast
  from mi have ok: "\<And>k. k < length (pcs s) \<Longrightarrow> sees (s_model s) (pcs s ! k)"
    unfolding model_inv_def by blast
  let ?done = "\<lambda>s. s_model s \<noteq> None \<or> (\<exists>k<length (pcs s). storing (pcs s ! k))"
  from inv have c1: "created s = (if ?done s then 1 else 0)"
    and c2: "attempts s = created s + failed s"
    and c3: "failed s = 0 \<or> (\<exists>k<length (pcs s). raising (pcs s ! k))"
    unfolding count_inv_def by blast+
  have c1': "created s' = (if ?done s' then 1 else 0)"
    using step_created_effect [OF st]
  proof (elim disjE conjE)
    assume same: "created s' = created s" "s_model s' = s_model s"
      and nst: "\<not> storing (pcs s ! t)" "\<not> storing (pcs s' ! t)"
    have "storing (pcs s' ! k) = storing (pcs s ! k)" for k
      using nst other by (cases "k = t") simp_all
    with same c1 len show ?thesis by simp
  next
    assume same: "created s' = created s" and was: "storing (pcs s ! t)"
      and now: "s_model s' \<noteq> None"
    from was t have "?done s" by blast
    with c1 same now show ?thesis by simp
  next
    assume more: "created s' = Suc (created s)" and call: "pcs s ! t = L65_call"
      and now: "storing (pcs s' ! t)"
    from ok [OF t] call have none: "s_model s = None" by simp
    from call have "in_with (pcs s ! t)" by simp
    from in_holds [OF t this] have lock: "s_lock s = Some t" .
    have "\<not> storing (pcs s ! k)" if k: "k < length (pcs s)" for k
    proof
      assume sk: "storing (pcs s ! k)"
      from in_holds [OF k storing_in_with [OF sk]] lock have "k = t" by simp
      with sk call show False by simp
    qed
    with none have "\<not> ?done s" by blast
    with c1 have "created s = 0" by simp
    moreover from now t len have "?done s'" by auto
    ultimately show ?thesis using more by simp
  qed
  have c23: "attempts s' = created s' + failed s'
       \<and> (failed s' = 0 \<or> (\<exists>k<length (pcs s'). raising (pcs s' ! k)))"
    using step_counters_effect [OF st]
  proof (elim disjE conjE)
    assume same: "attempts s' = attempts s" "created s' = created s" "failed s' = failed s"
      and keep: "raising (pcs s ! t) \<longrightarrow> raising (pcs s' ! t)"
    have "\<exists>k<length (pcs s'). raising (pcs s' ! k)" if "failed s \<noteq> 0"
    proof -
      from c3 that obtain k where k: "k < length (pcs s)" "raising (pcs s ! k)" by blast
      show ?thesis
      proof (cases "k = t")
        case True
        with k keep len show ?thesis by auto
      next
        case False
        with other k len show ?thesis by auto
      qed
    qed
    with same c2 show ?thesis by auto
  next
    assume "attempts s' = Suc (attempts s)" "created s' = Suc (created s)" "failed s' = failed s"
      and nr: "\<not> raising (pcs s ! t)"
    moreover have "\<exists>k<length (pcs s'). raising (pcs s' ! k)" if "failed s \<noteq> 0"
    proof -
      from c3 that obtain k where k: "k < length (pcs s)" "raising (pcs s ! k)" by blast
      with nr have "k \<noteq> t" by auto
      with other k len show ?thesis by auto
    qed
    ultimately show ?thesis using c2 by auto
  next
    assume "attempts s' = Suc (attempts s)" "created s' = created s" "failed s' = Suc (failed s)"
      and "raising (pcs s' ! t)"
    with c2 t len show ?thesis by auto
  qed
  from c1' c23 show ?thesis unfolding count_inv_def by blast
qed

lemma step_single_flight:
  "single_flight s \<Longrightarrow> step t ok s = Some s' \<Longrightarrow> single_flight s'"
  unfolding single_flight_def
  using step_lock_inv step_model_inv step_count_inv by blast

lemma run_single_flight: "single_flight s \<Longrightarrow> single_flight (run sched s)"
proof (induction sched arbitrary: s)
  case Nil
  then show ?case by simp
next
  case (Cons a sched)
  obtain t ok where a: "a = (t, ok)" by (cases a)
  show ?case
  proof (cases "step t ok s")
    case None
    with a Cons show ?thesis by simp
  next
    case (Some s')
    with Cons.prems have "single_flight s'" by (rule_tac step_single_flight)
    with a Some Cons.IH show ?thesis by simp
  qed
qed

lemma run_length: "length (pcs (run sched s)) = length (pcs s)"
proof (induction sched arbitrary: s)
  case Nil
  show ?case by simp
next
  case (Cons a sched)
  obtain t ok where a: "a = (t, ok)" by (cases a)
  show ?case
  proof (cases "step t ok s")
    case None
    with a Cons show ?thesis by simp
  next
    case (Some s')
    with a Cons [of s'] step_length [OF Some] show ?thesis by simp
  qed
qed

lemma step_enabled:
  assumes "t < length (pcs s)" and "\<not> finished (pcs s ! t)"
    and "pcs s ! t = L63 \<longrightarrow> s_lock s = None"
  shows "step t ok s \<noteq> None"
  using assms by (cases "pcs s ! t") (simp_all add: step_def)

lemma in_with_unfinished: "in_with p \<Longrightarrow> \<not> finished p \<and> p \<noteq> L63"
  by (cases p) simp_all

lemma no_deadlock:
  assumes lk: "lock_inv s" and k: "k < length (pcs s)" "\<not> finished (pcs s ! k)"
  shows "\<exists>t<length (pcs s). \<exists>ok. step t ok s \<noteq> None"
proof (cases "pcs s ! k = L63 \<and> s_lock s \<noteq> None")
  case False
  with k have "step k True s \<noteq> None" by (intro step_enabled) auto
  with k(1) show ?thesis by blast
next
  case True
  then obtain t where "s_lock s = Some t" by auto
  with lk have t: "t < length (pcs s)" "in_with (pcs s ! t)"
    unfolding lock_inv_def by blast+
  from in_with_unfinished [OF t(2)] t(1) have "step t True s \<noteq> None"
    by (intro step_enabled) auto
  with t(1) show ?thesis by blast
qed

lemma step_rank: "step t ok s = Some s' \<Longrightarrow> rank (pcs s' ! t) < rank (pcs s ! t)"
  by (cases "pcs s ! t") (auto simp: step_def goto_def split: if_splits)

lemma step_remaining:
  assumes st: "step t ok s = Some s'"
  shows "remaining s' < remaining s"
proof -
  let ?rs = "map rank (pcs s)"
  note t = step_index [OF st]
  have "map rank (pcs s') = ?rs[t := rank (pcs s' ! t)]"
    using step_pcs [OF st] by (metis map_update)
  then have "remaining s' = sum_list ?rs + rank (pcs s' ! t) - ?rs ! t"
    using t by (simp add: remaining_def sum_list_update)
  moreover have "?rs ! t \<le> sum_list ?rs"
    using t by (intro elem_le_sum_list) simp
  moreover have "rank (pcs s' ! t) < ?rs ! t"
    using step_rank [OF st] t by simp
  ultimately show ?thesis by (simp add: remaining_def)
qed

text \<open>
  Claim C3. Take \<open>n\<close> callers entering \<open>_ensure_model\<close> on a fresh engine, under any
  interleaving of their steps and with constructor calls that may raise. In every state
  reached: at most one model object has been constructed, and every constructor call either
  constructed it or raised; a caller that has returned holds the stored model, so all
  returned callers hold the same one, and then exactly one object has been constructed;
  when all \<open>n > 0\<close> callers have returned, the constructor was called exactly once.
  The calls do complete: while a caller is unfinished some caller can step (the lock holder
  is never blocked), and every step lowers the number of steps that remain.
\<close>

theorem ensure_model_concurrent_single_initialization:
  "let s = run sched (fresh n) in
     created s \<le> 1
   \<and> attempts s = created s + failed s
   \<and> (\<forall>t<n. \<forall>ho. pcs s ! t = Returned ho \<longrightarrow>
         (\<exists>h. ho = Some h \<and> s_model s = Some h) \<and> created s = 1)
   \<and> (\<forall>t<n. \<forall>u<n. \<forall>ho ho'. pcs s ! t = Returned ho \<and> pcs s ! u = Returned ho'
         \<longrightarrow> ho = ho')
   \<and> (0 < n \<and> (\<forall>t<n. \<exists>ho. pcs s ! t = Returned ho) \<longrightarrow> attempts s = 1)
   \<and> ((\<exists>t<n. \<not> finished (pcs s ! t)) \<longrightarrow> (\<exists>t<n. \<exists>ok. step t ok s \<noteq> None))
   \<and> (\<forall>t ok s'. step t ok s = Some s' \<longrightarrow> remaining s' < remaining s)"
proof -
  define s where "s = run sched (fresh n)"
  have len: "length (pcs s) = n" by (simp add: s_def run_length fresh_def)
  have "single_flight s" unfolding s_def by (rule run_single_flight) (rule fresh_single_flight)
  then have lk: "lock_inv s" and mi: "model_inv s" and ci: "count_inv s"
    by (simp_all add: single_flight_def)
  from ci have c1: "created s \<le> 1" and c2: "attempts s = created s + failed s"
    and c3: "failed s = 0 \<or> (\<exists>t<n. raising (pcs s ! t))"
    and c4: "s_model s \<noteq> None \<Longrightarrow> created s = 1"
    unfolding count_inv_def len by (simp_all split: if_splits)
  have ret: "(\<exists>h. ho = Some h \<and> s_model s = Some h) \<and> created s = 1"
    if "t < n" "pcs s ! t = Returned ho" for t ho
  proof -
    from mi that len have "sees (s_model s) (Returned ho)"
      unfolding model_inv_def by metis
    then have "ho = s_model s" "s_model s \<noteq> None" by simp_all
    with c4 show ?thesis by auto
  qed
  have all: "attempts s = 1" if "0 < n" "\<forall>t<n. \<exists>ho. pcs s ! t = Returned ho"
  proof -
    from that obtain ho where "pcs s ! 0 = Returned ho" by blast
    from ret [OF that(1) this] have "created s = 1" by simp
    moreover have "failed s = 0"
    proof (rule ccontr)
      assume "failed s \<noteq> 0"
      with c3 obtain t where t: "t < n" "raising (pcs s ! t)" by blast
      with that(2) obtain ho' where "pcs s ! t = Returned ho'" by blast
      with t(2) show False by simp
    qed
    ultimately show ?thesis using c2 by simp
  qed
  have live: "\<exists>t<n. \<exists>ok. step t ok s \<noteq> None" if "\<exists>t<n. \<not> finished (pcs s ! t)"
    using that no_deadlock [OF lk] len by metis
  have same: "ho = ho'"
    if "t < n" "u < n" "pcs s ! t = Returned ho" "pcs s ! u = Returned ho'" for t u ho ho'
    using ret [OF that(1,3)] ret [OF that(2,4)] by auto
  from c1 c2 ret same all live step_remaining show ?thesis
    unfolding s_def [symmetric] Let_def by blast
qed


lemma demo_run_all:
  "run demo_schedule (fresh 2) =
     \<lparr>s_model = Some 0, s_lock = None, pcs = [Returned (Some 0), Returned (Some 0)],
      attempts = 1, created = 1, failed = 0\<rparr>"
  by (simp add: demo_schedule_def fresh_def step_def goto_def numeral_2_eq_2)

lemma demo_run_prefix:
  "run (take 3 demo_schedule) (fresh 2) =
     \<lparr>s_model = None, s_lock = Some 0, pcs = [L64, L63], attempts = 0, created = 0, failed = 0\<rparr>"
  by (simp add: demo_schedule_def fresh_def step_def goto_def numeral_2_eq_2)

theorem ensure_model_concurrent_single_initialization_witness:
  "pcs (run demo_schedule (fresh 2)) = [Returned (Some 0), Returned (Some 0)]
   \<and> s_model (run demo_schedule (fresh 2)) = Some 0
   \<and> attempts (run demo_schedule (fresh 2)) = 1
   \<and> created (run demo_schedule (fresh 2)) = 1
   \<and> \<not> finished (pcs (run (take 3 demo_schedule) (fresh 2)) ! 1)
   \<and> step 1 True (run (take 3 demo_schedule) (fresh 2)) = None
   \<and> (\<exists>t<2. \<exists>ok. step t ok (run (take 3 demo_schedule) (fresh 2)) \<noteq> None)
   \<and> (\<exists>s'. step 0 True (run (take 3 demo_schedule) (fresh 2)) = Some s'
          \<and> remaining s' < remaining (run (take 3 demo_schedule) (fresh 2)))"
proof -
  note final = ensure_model_concurrent_single_initialization
    [of demo_schedule 2, unfolded Let_def]
  note mid = ensure_model_concurrent_single_initialization
    [of "take 3 demo_schedule" 2, unfolded Let_def]
  have pcs: "pcs (run demo_schedule (fresh 2)) = [Returned (Some 0), Returned (Some 0)]"
    by (simp add: demo_run_all)
  have all: "(0::nat) < 2 \<and> (\<forall>t<2. \<exists>ho. pcs (run demo_schedule (fresh 2)) ! t = Returned ho)"
    by (simp add: pcs less_2_cases_iff)
  have first: "(0::nat) < 2" "pcs (run demo_schedule (fresh 2)) ! 0 = Returned (Some 0)"
    by (simp_all add: pcs)
  from final all have a: "attempts (run demo_schedule (fresh 2)) = 1" by blast
  from final first have c: "s_model (run demo_schedule (fresh 2)) = Some 0
      \<and> created (run demo_schedule (fresh 2)) = 1" by blast
  have waiting: "(1::nat) < 2" "\<not> finished (pcs (run (take 3 demo_schedule) (fresh 2)) ! 1)"
    by (simp_all add: demo_run_prefix)
  have blocked: "step 1 True (run (take 3 demo_schedule) (fresh 2)) = None"
    by (simp add: demo_run_prefix step_def)
  from mid waiting
  have live: "\<exists>t<2. \<exists>ok. step t ok (run (take 3 demo_schedule) (fresh 2)) \<noteq> None" by blast
  obtain s' where s': "step 0 True (run (take 3 demo_schedule) (fresh 2)) = Some s'"
    by (simp add: demo_run_prefix step_def)
  with mid have "remaining s' < remaining (run (take 3 demo_schedule) (fresh 2))" by blast
  with s' pcs a c waiting blocked live show ?thesis by blast
qed

end
